theory Spec2Isabelle
  imports Complex_Main "HOL-Library.AList"
begin

section \<open>Data model of \<open>TrafficLightSystem\<close> (src/ITLMS.py)\<close>

text \<open>
  A Python dict is an association list in insertion order: a lookup is \<open>map_of\<close>, an
  assignment \<open>d[k] = v\<close> is \<open>AList.update\<close> (replace in place, or append a new key), and
  iteration walks the keys from the front. A dict has no key twice; on lists with distinct
  keys the operations below are those of the dict, and no theorem needs the distinctness.
  Clock readings (\<open>time.time()\<close>) are reals; the readings taken inside one call are
  modelled as one instant \<open>now\<close>, handed to the call. The display handle \<open>gui\<close> only
  receives the light mapping and is left out.
\<close>

type_synonym road = string

datatype error = KeyError | ValueError | TypeError

text \<open>The per-road count dict built in \<open>process_video_frame\<close>, always with these five keys.\<close>

record counts =
  ambulance :: nat
  firefighter :: nat
  police :: nat
  traffic :: nat
  car :: nat

text \<open>A bookkeeping entry \<open>{"time": ..., "open_road": ...}\<close>.\<close>

record entry =
  time :: real
  open_road :: road

record state =
  road_data :: "(road \<times> (counts \<times> nat)) list option"
  traffic_lights :: "(road \<times> bool) list"
  last_open_data :: "(road \<times> entry) list"
  last_open_time_em :: real

text \<open>
  A call either returns or leaves through an exception; in both cases the object keeps
  the mutations made so far, so both carry the state.
\<close>

datatype outcome = Returned state | Raised error state

fun state_of :: "outcome \<Rightarrow> state" where
  "state_of (Returned s) = s"
| "state_of (Raised e s) = s"

text \<open>\<open>__init__\<close>: every road of \<open>video_caps\<close> closed, no bookkeeping, no snapshot.\<close>

definition init :: "road list \<Rightarrow> state" where
  "init roads =
     \<lparr>road_data = None,
      traffic_lights = map (\<lambda>road. (road, False)) roads,
      last_open_data = [],
      last_open_time_em = 0\<rparr>"

section \<open>The light setters\<close>

definition lock_traffic :: "state \<Rightarrow> road \<Rightarrow> outcome" where
  "lock_traffic s road =
     (case map_of (traffic_lights s) road of
        None \<Rightarrow> Raised KeyError s
      | Some b \<Rightarrow>
          if \<not> b then Returned s
          else Returned (s\<lparr>traffic_lights := AList.update road False (traffic_lights s)\<rparr>))"

definition unlock_traffic :: "state \<Rightarrow> road \<Rightarrow> outcome" where
  "unlock_traffic s road =
     (case map_of (traffic_lights s) road of
        None \<Rightarrow> Raised KeyError s
      | Some b \<Rightarrow>
          if b then Returned s
          else Returned (s\<lparr>traffic_lights := AList.update road True (traffic_lights s)\<rparr>))"

section \<open>\<open>update_traffic_with_lock\<close>\<close>

text \<open>
  The loop \<open>for prev_road in self.last_open_data.keys(): if
  self.last_open_data[prev_road]["open_road"] != road: self.lock_traffic(prev_road)\<close>,
  written three times in the source (lines 359, 377 and 411). An exception of
  \<open>lock_traffic\<close> leaves the loop with the roads locked so far.
\<close>

fun lock_others :: "road \<Rightarrow> road list \<Rightarrow> state \<Rightarrow> outcome" where
  "lock_others road [] s = Returned s"
| "lock_others road (prev_road # rest) s =
     (case map_of (last_open_data s) prev_road of
        None \<Rightarrow> Raised KeyError s
      | Some e \<Rightarrow>
          if open_road e \<noteq> road then
            (case lock_traffic s prev_road of
               Raised err s' \<Rightarrow> Raised err s'
             | Returned s' \<Rightarrow> lock_others road rest s')
          else lock_others road rest s)"

text \<open>
  The statements that follow the loop in all three places: open the road and write its
  bookkeeping entry.
\<close>

definition set_entry :: "real \<Rightarrow> road \<Rightarrow> state \<Rightarrow> state" where
  "set_entry now road s =
     s\<lparr>last_open_data :=
         AList.update road \<lparr>time = now, open_road = road\<rparr> (last_open_data s)\<rparr>"

definition switch_to :: "real \<Rightarrow> road \<Rightarrow> state \<Rightarrow> outcome" where
  "switch_to now road s =
     (case lock_others road (map fst (last_open_data s)) s of
        Raised err s1 \<Rightarrow> Raised err s1
      | Returned s1 \<Rightarrow>
          (case unlock_traffic s1 road of
             Raised err s2 \<Rightarrow> Raised err s2
           | Returned s2 \<Rightarrow> Returned (set_entry now road s2)))"

text \<open>\<open>self.last_open_data.get(road, {}).get("time", 0)\<close>\<close>

definition entry_time :: "state \<Rightarrow> road \<Rightarrow> real" where
  "entry_time s road =
     (case map_of (last_open_data s) road of None \<Rightarrow> 0 | Some e \<Rightarrow> time e)"

text \<open>The \<open>else\<close> branch of the \<open>try\<close> body (lines 371 to 383).\<close>

definition density_switch :: "real \<Rightarrow> state \<Rightarrow> road \<Rightarrow> bool \<Rightarrow> outcome" where
  "density_switch now s road has_emergency_vehicle =
     (if map_of (traffic_lights s) road \<noteq> None \<and>
         map_of (traffic_lights s) road = Some False \<and>
         now - entry_time s road \<ge> 10 \<and>
         has_emergency_vehicle = False \<and>
         now - last_open_time_em s \<ge> 10
      then
        (case switch_to now road s of
           Raised err s' \<Rightarrow> Raised err s'
         | Returned s' \<Rightarrow> Returned (s'\<lparr>last_open_time_em := 0\<rparr>))
      else Returned s)"

text \<open>The body of the \<open>try\<close> (lines 357 to 386).\<close>

definition try_body :: "real \<Rightarrow> state \<Rightarrow> road \<Rightarrow> bool \<Rightarrow> outcome" where
  "try_body now s road has_emergency_vehicle =
     (if has_emergency_vehicle then
        (case map_of (traffic_lights s) road of
           None \<Rightarrow> Raised KeyError s
         | Some b \<Rightarrow>
             if b = False then
               (case switch_to now road s of
                  Raised err s' \<Rightarrow> Raised err s'
                | Returned s' \<Rightarrow> Returned (s'\<lparr>last_open_time_em := now\<rparr>))
             else density_switch now s road has_emergency_vehicle)
      else density_switch now s road has_emergency_vehicle)"

text \<open>\<open>except KeyError\<close> seeds the entry of the road; any other exception goes on.\<close>

definition update_traffic_with_lock :: "real \<Rightarrow> state \<Rightarrow> road \<Rightarrow> bool \<Rightarrow> outcome" where
  "update_traffic_with_lock now s road has_emergency_vehicle =
     (case try_body now s road has_emergency_vehicle of
        Returned s' \<Rightarrow> Returned s'
      | Raised err s' \<Rightarrow>
          if err = KeyError then Returned (set_entry now road s') else Raised err s')"

section \<open>\<open>update_traffic_light\<close> and \<open>process_and_update_traffic\<close>\<close>

text \<open>\<open>{road: data[0] for road, data in self.road_data.items()}\<close>\<close>

definition road_counts_of :: "(road \<times> (counts \<times> nat)) list \<Rightarrow> (road \<times> counts) list" where
  "road_counts_of rd = map (\<lambda>(road, data). (road, fst data)) rd"

definition has_emergency :: "(road \<times> counts) list \<Rightarrow> bool" where
  "has_emergency road_counts =
     list_ex (\<lambda>(r, c). list_ex (\<lambda>vehicle. vehicle c > 0) [ambulance, firefighter, police])
       road_counts"

text \<open>The scan of lines 325 to 335: one call for the first road that matches, then \<open>break\<close>.\<close>

fun emergency_scan :: "real \<Rightarrow> state \<Rightarrow> (road \<times> counts) list \<Rightarrow> outcome" where
  "emergency_scan now s [] = Returned s"
| "emergency_scan now s ((road, c) # rest) =
     (if ambulance c > 0 then update_traffic_with_lock now s road True
      else if firefighter c > 0 then update_traffic_with_lock now s road True
      else if police c > 0 then update_traffic_with_lock now s road True
      else emergency_scan now s rest)"

text \<open>
  Python's \<open>max(xs, key=f)\<close>: the first item whose key is greatest (a later item replaces
  the current one only when its key is strictly greater); \<open>ValueError\<close> on no item, here
  \<open>None\<close>.
\<close>

fun max_from :: "('a \<Rightarrow> nat) \<Rightarrow> 'a \<Rightarrow> 'a list \<Rightarrow> 'a" where
  "max_from key best [] = best"
| "max_from key best (x # xs) =
     (if key best < key x then max_from key x xs else max_from key best xs)"

definition py_max :: "('a \<Rightarrow> nat) \<Rightarrow> 'a list \<Rightarrow> 'a option" where
  "py_max key xs = (case xs of [] \<Rightarrow> None | x # rest \<Rightarrow> Some (max_from key x rest))"

text \<open>\<open>{road: sum(road_counts[road].values()) for road in road_counts}\<close>\<close>

definition total_counts :: "(road \<times> counts) list \<Rightarrow> (road \<times> nat) list" where
  "total_counts road_counts =
     map (\<lambda>(road, c). (road, ambulance c + firefighter c + police c + traffic c + car c))
       road_counts"

text \<open>The loop of lines 343 to 345.\<close>

fun density_loop :: "real \<Rightarrow> road \<Rightarrow> state \<Rightarrow> road list \<Rightarrow> outcome" where
  "density_loop now max_count_road s [] = Returned s"
| "density_loop now max_count_road s (road # rest) =
     (if road = max_count_road then
        (case update_traffic_with_lock now s road False of
           Raised err s' \<Rightarrow> Raised err s'
         | Returned s' \<Rightarrow> density_loop now max_count_road s' rest)
      else density_loop now max_count_road s rest)"

definition update_traffic_light :: "real \<Rightarrow> state \<Rightarrow> outcome" where
  "update_traffic_light now s =
     (case road_data s of
        None \<Rightarrow> Returned s
      | Some rd \<Rightarrow>
          if has_emergency (road_counts_of rd) then emergency_scan now s (road_counts_of rd)
          else
            (case py_max snd (total_counts (road_counts_of rd)) of
               None \<Rightarrow> Raised ValueError s
             | Some m \<Rightarrow> density_loop now (fst m) s (map fst rd)))"

text \<open>
  \<open>rd\<close> is what \<open>video_processor.get_road_data()\<close> returns at the call: the processor's
  dict, never \<open>None\<close>.
\<close>

definition process_and_update_traffic ::
  "real \<Rightarrow> (road \<times> (counts \<times> nat)) list \<Rightarrow> state \<Rightarrow> outcome" where
  "process_and_update_traffic now rd s = update_traffic_light now (s\<lparr>road_data := Some rd\<rparr>)"

section \<open>\<open>check_and_open_overdue_road\<close>\<close>

text \<open>
  The comprehension of line 408. \<open>self.road_data[r]\<close> is read only for a road that has
  waited 10 units, and raises when the snapshot cache is \<open>None\<close> or has no such road.
\<close>

fun eligible_roads :: "real \<Rightarrow> state \<Rightarrow> road list \<Rightarrow> error + road list" where
  "eligible_roads now s [] = Inr []"
| "eligible_roads now s (r # rest) =
     (case map_of (last_open_data s) r of
        None \<Rightarrow> Inl KeyError
      | Some e \<Rightarrow>
          if now - time e \<ge> 10 then
            (case road_data s of
               None \<Rightarrow> Inl TypeError
             | Some rd \<Rightarrow>
                 (case map_of rd r of
                    None \<Rightarrow> Inl KeyError
                  | Some data \<Rightarrow>
                      (case eligible_roads now s rest of
                         Inl err \<Rightarrow> Inl err
                       | Inr rs \<Rightarrow> Inr (if car (fst data) > 0 then r # rs else rs))))
          else eligible_roads now s rest)"

text \<open>
  The key \<open>lambda r: self.road_data[r][0]["car"]\<close> of line 410; it is applied to eligible
  roads only, whose snapshot the comprehension has just read, so the default is never used.
\<close>

definition car_of :: "state \<Rightarrow> road \<Rightarrow> nat" where
  "car_of s r =
     (case road_data s of
        None \<Rightarrow> 0
      | Some rd \<Rightarrow> (case map_of rd r of None \<Rightarrow> 0 | Some data \<Rightarrow> car (fst data)))"

text \<open>The body of the \<open>if\<close> of line 407, up to the \<open>break\<close>.\<close>

definition open_overdue :: "real \<Rightarrow> state \<Rightarrow> outcome" where
  "open_overdue now s =
     (case eligible_roads now s (map fst (last_open_data s)) of
        Inl err \<Rightarrow> Raised err s
      | Inr eligible \<Rightarrow>
          if eligible \<noteq> [] then
            (case py_max (car_of s) eligible of
               None \<Rightarrow> Raised ValueError s
             | Some new_open_road \<Rightarrow> switch_to now new_open_road s)
          else Returned s)"

fun overdue_scan :: "real \<Rightarrow> state \<Rightarrow> road list \<Rightarrow> outcome" where
  "overdue_scan now s [] = Returned s"
| "overdue_scan now s (road # rest) =
     (case map_of (last_open_data s) road of
        None \<Rightarrow> Raised KeyError s
      | Some e \<Rightarrow>
          if now - time e \<ge> 120 then open_overdue now s
          else overdue_scan now s rest)"

definition check_and_open_overdue_road :: "real \<Rightarrow> state \<Rightarrow> outcome" where
  "check_and_open_overdue_road now s = overdue_scan now s (map fst (last_open_data s))"

section \<open>Observations, invariants and runs\<close>

definition is_open :: "state \<Rightarrow> road \<Rightarrow> bool" where
  "is_open s r = (map_of (traffic_lights s) r = Some True)"

definition bookkept :: "state \<Rightarrow> road \<Rightarrow> bool" where
  "bookkept s r = (r \<in> set (map fst (last_open_data s)))"

definition open_roads :: "state \<Rightarrow> road list" where
  "open_roads s = filter (is_open s) (remdups (map fst (traffic_lights s)))"

definition at_most_one_open :: "state \<Rightarrow> bool" where
  "at_most_one_open s = (length (open_roads s) \<le> 1)"

definition entries_own_key :: "state \<Rightarrow> bool" where
  "entries_own_key s =
     list_all (\<lambda>r. case map_of (last_open_data s) r of None \<Rightarrow> False | Some e \<Rightarrow> open_road e = r)
       (map fst (last_open_data s))"

definition bookkeeping_inv :: "state \<Rightarrow> bool" where
  "bookkeeping_inv s = (list_all (bookkept s) (open_roads s) \<and> entries_own_key s)"

text \<open>The loop changes lights only, and only from open to closed, on roads whose entry names
  another road than the target.\<close>

definition only_locked :: "road \<Rightarrow> state \<Rightarrow> state \<Rightarrow> bool" where
  "only_locked road s s' =
     (last_open_data s' = last_open_data s \<and> road_data s' = road_data s \<and>
      last_open_time_em s' = last_open_time_em s \<and>
      (\<forall>x. map_of (traffic_lights s') x = map_of (traffic_lights s) x \<or>
           (map_of (traffic_lights s') x = Some False \<and> map_of (traffic_lights s) x = Some True \<and>
            (\<exists>e. map_of (last_open_data s) x = Some e \<and> open_road e \<noteq> road))))"

definition mutex_inv :: "state \<Rightarrow> bool" where
  "mutex_inv s = (bookkeeping_inv s \<and> at_most_one_open s)"

text \<open>What a state predicate must survive to be kept by every operation.\<close>

definition stable :: "(state \<Rightarrow> bool) \<Rightarrow> bool" where
  "stable J =
     ((\<forall>road s s'. J s \<and> only_locked road s s' \<longrightarrow> J s') \<and>
      (\<forall>now road s. J s \<longrightarrow> J (set_entry now road s)) \<and>
      (\<forall>s t. J s \<longrightarrow> J (s\<lparr>last_open_time_em := t\<rparr>)) \<and>
      (\<forall>s rd. J s \<longrightarrow> J (s\<lparr>road_data := rd\<rparr>)) \<and>
      (\<forall>now road s s'. J s \<and> switch_to now road s = Returned s' \<longrightarrow> J s'))"

text \<open>The two calls of the scheduling pulse, and runs of them. A call that raises leaves
  the object as it is at that point, and the event loop goes on.\<close>

datatype call = Tick real "(road \<times> (counts \<times> nat)) list" | Sweep real

fun step :: "call \<Rightarrow> state \<Rightarrow> outcome" where
  "step (Tick now rd) s = process_and_update_traffic now rd s"
| "step (Sweep now) s = check_and_open_overdue_road now s"

fun run :: "state \<Rightarrow> call list \<Rightarrow> state" where
  "run s [] = s"
| "run s (c # cs) = run (state_of (step c s)) cs"

text \<open>The road the emergency scan stops at: the first one, in snapshot order, with any
  emergency vehicle.\<close>

definition emergency_selected :: "(road \<times> counts) list \<Rightarrow> road option" where
  "emergency_selected road_counts =
     map_option fst
       (find (\<lambda>(road, c). ambulance c > 0 \<or> firefighter c > 0 \<or> police c > 0) road_counts)"

text \<open>The road the density branch selects: \<open>max_count_road\<close>.\<close>

definition density_selected :: "(road \<times> (counts \<times> nat)) list \<Rightarrow> road option" where
  "density_selected rd = map_option fst (py_max snd (total_counts (road_counts_of rd)))"

text \<open>Every bookkept road is a key of \<open>traffic_lights\<close>.\<close>

definition configured :: "state \<Rightarrow> bool" where
  "configured s =
     list_all (\<lambda>k. map_of (traffic_lights s) k \<noteq> None) (map fst (last_open_data s))"

text \<open>The snapshots handed to the ticks of a run mention configured roads only: the
  processor writes \<open>road_data[road]\<close> for roads of \<open>video_caps\<close>, the keys of
  \<open>traffic_lights\<close>.\<close>

fun snapshot_within :: "road list \<Rightarrow> call \<Rightarrow> bool" where
  "snapshot_within roads (Tick now rd) = list_all (\<lambda>k. k \<in> set roads) (map fst rd)"
| "snapshot_within roads (Sweep now) = True"

text \<open>The lights are those of the configured roads, and every bookkept road is one.\<close>

definition lights_of :: "road list \<Rightarrow> state \<Rightarrow> bool" where
  "lights_of roads s =
     (set (map fst (traffic_lights s)) = set roads \<and> configured s)"

fun call_time :: "call \<Rightarrow> real" where
  "call_time (Tick now rd) = now"
| "call_time (Sweep now) = now"

text \<open>\<open>self.road_data[r]\<close> exists.\<close>

definition has_snapshot :: "state \<Rightarrow> road \<Rightarrow> bool" where
  "has_snapshot s r =
     (case road_data s of None \<Rightarrow> False | Some rd \<Rightarrow> map_of rd r \<noteq> None)"

text \<open>The four public operations of the class, and runs of them. In an admissible run
  \<open>unlock_traffic\<close> is called for bookkept roads only.\<close>

datatype operation = Arbitrate call | Lock road | Unlock road

fun apply_op :: "operation \<Rightarrow> state \<Rightarrow> outcome" where
  "apply_op (Arbitrate c) s = step c s"
| "apply_op (Lock road) s = lock_traffic s road"
| "apply_op (Unlock road) s = unlock_traffic s road"

fun run_ops :: "state \<Rightarrow> operation list \<Rightarrow> state" where
  "run_ops s [] = s"
| "run_ops s (x # xs) = run_ops (state_of (apply_op x s)) xs"

fun admissible :: "state \<Rightarrow> operation list \<Rightarrow> bool" where
  "admissible s [] = True"
| "admissible s (x # xs) =
     ((case x of Unlock road \<Rightarrow> bookkept s road | _ \<Rightarrow> True) \<and>
      admissible (state_of (apply_op x s)) xs)"

section \<open>Example data\<close>

text \<open>A snapshot of a frame without congestion objects.\<close>

definition snapshot :: "nat \<Rightarrow> nat \<Rightarrow> nat \<Rightarrow> nat \<Rightarrow> counts \<times> nat" where
  "snapshot a f p c =
     (\<lparr>ambulance = a, firefighter = f, police = p, traffic = 0, car = c\<rparr>, a + f + p + c)"

text \<open>Example data: two roads, the busier one first Road1, a second later Road2.\<close>

definition two_roads :: "road list" where
  "two_roads = [''Road1'', ''Road2'']"

definition road1_busy :: "(road \<times> (counts \<times> nat)) list" where
  "road1_busy = [(''Road1'', snapshot 0 0 0 5), (''Road2'', snapshot 0 0 0 1)]"

definition road2_busy :: "(road \<times> (counts \<times> nat)) list" where
  "road2_busy = [(''Road1'', snapshot 0 0 0 1), (''Road2'', snapshot 0 0 0 5)]"

definition road1_opened :: state where
  "road1_opened =
     \<lparr>road_data = Some road1_busy,
      traffic_lights = [(''Road1'', True), (''Road2'', False)],
      last_open_data = [(''Road1'', \<lparr>time = 1000, open_road = ''Road1''\<rparr>)],
      last_open_time_em = 0\<rparr>"

definition road2_opened :: state where
  "road2_opened =
     \<lparr>road_data = Some road2_busy,
      traffic_lights = [(''Road1'', False), (''Road2'', True)],
      last_open_data = [(''Road1'', \<lparr>time = 1000, open_road = ''Road1''\<rparr>),
                        (''Road2'', \<lparr>time = 1001, open_road = ''Road2''\<rparr>)],
      last_open_time_em = 0\<rparr>"

text \<open>Example data: an ambulance on the first road; and three roads with a police car, a
  fire engine and an ambulance, in that order.\<close>

definition ambulance_on_road1 :: "(road \<times> (counts \<times> nat)) list" where
  "ambulance_on_road1 = [(''Road1'', snapshot 1 0 0 2), (''Road2'', snapshot 0 0 0 5)]"

definition three_roads :: "road list" where
  "three_roads = [''Road1'', ''Road2'', ''Road3'']"

definition police_first :: "(road \<times> (counts \<times> nat)) list" where
  "police_first =
     [(''Road1'', snapshot 0 0 1 0), (''Road2'', snapshot 0 1 0 0), (''Road3'', snapshot 1 0 0 0)]"

text \<open>Example data: the state after the ambulance of \<open>ambulance_on_road1\<close> was given
  Road1 at time 1000.\<close>

definition ambulance_served :: state where
  "ambulance_served =
     \<lparr>road_data = Some ambulance_on_road1,
      traffic_lights = [(''Road1'', True), (''Road2'', False)],
      last_open_data = [(''Road1'', \<lparr>time = 1000, open_road = ''Road1''\<rparr>)],
      last_open_time_em = 1000\<rparr>"

text \<open>Example data: Road2 holds the light since 1115 and has the larger demand score
  through its congestion count; Road1 waits since 1000 with more cars.\<close>

definition congested_road2 :: "(road \<times> (counts \<times> nat)) list" where
  "congested_road2 =
     [(''Road1'', snapshot 0 0 0 3),
      (''Road2'', (\<lparr>ambulance = 0, firefighter = 0, police = 0, traffic = 13, car = 1\<rparr>, 2))]"

definition road1_starving :: state where
  "road1_starving =
     \<lparr>road_data = Some road2_busy,
      traffic_lights = [(''Road1'', False), (''Road2'', True)],
      last_open_data = [(''Road1'', \<lparr>time = 1000, open_road = ''Road1''\<rparr>),
                        (''Road2'', \<lparr>time = 1115, open_road = ''Road2''\<rparr>)],
      last_open_time_em = 0\<rparr>"

definition road1_relieved :: state where
  "road1_relieved =
     \<lparr>road_data = Some congested_road2,
      traffic_lights = [(''Road1'', True), (''Road2'', False)],
      last_open_data = [(''Road1'', \<lparr>time = 1130, open_road = ''Road1''\<rparr>),
                        (''Road2'', \<lparr>time = 1115, open_road = ''Road2''\<rparr>)],
      last_open_time_em = 0\<rparr>"

text \<open>
  The eligible set of the sweep in the words of the specification: a road with a
  bookkeeping entry whose own wait is at least 10 time-units and whose latest \<open>car\<close> count
  is positive; a road without snapshot is not eligible. It is compared below with the
  comprehension of line 408, \<open>eligible_roads\<close>.
\<close>

definition eligible_for_sweep :: "real \<Rightarrow> state \<Rightarrow> road \<Rightarrow> bool" where
  "eligible_for_sweep now s r =
     (bookkept s r \<and> now - entry_time s r \<ge> 10 \<and>
      (case road_data s of
         None \<Rightarrow> False
       | Some rd \<Rightarrow> (case map_of rd r of None \<Rightarrow> False | Some data \<Rightarrow> car (fst data) > 0)))"

text \<open>Example data: three roads. Road1 was opened at 1000 and has no car left; Road2 was
  opened at 1125 and Road3, which holds the light, at 1127; both have cars.\<close>

definition road1_leads :: "(road \<times> (counts \<times> nat)) list" where
  "road1_leads =
     [(''Road1'', snapshot 0 0 0 5), (''Road2'', snapshot 0 0 0 1), (''Road3'', snapshot 0 0 0 1)]"

definition road2_leads :: "(road \<times> (counts \<times> nat)) list" where
  "road2_leads =
     [(''Road1'', snapshot 0 0 0 0), (''Road2'', snapshot 0 0 0 5), (''Road3'', snapshot 0 0 0 1)]"

definition road3_leads :: "(road \<times> (counts \<times> nat)) list" where
  "road3_leads =
     [(''Road1'', snapshot 0 0 0 0), (''Road2'', snapshot 0 0 0 5), (''Road3'', snapshot 0 0 0 7)]"

definition overdue_without_cars :: state where
  "overdue_without_cars =
     \<lparr>road_data = Some road3_leads,
      traffic_lights = [(''Road1'', False), (''Road2'', False), (''Road3'', True)],
      last_open_data = [(''Road1'', \<lparr>time = 1000, open_road = ''Road1''\<rparr>),
                        (''Road2'', \<lparr>time = 1125, open_road = ''Road2''\<rparr>),
                        (''Road3'', \<lparr>time = 1127, open_road = ''Road3''\<rparr>)],
      last_open_time_em = 0\<rparr>"

section \<open>Basic facts\<close>

lemma is_open_key: "is_open s r \<Longrightarrow> r \<in> set (map fst (traffic_lights s))"
  unfolding is_open_def by (metis map_of_eq_None_iff option.distinct(1) set_map)

lemma set_open_roads: "set (open_roads s) = {r. is_open s r}"
  unfolding open_roads_def using is_open_key by auto

lemma distinct_open_roads: "distinct (open_roads s)"
  unfolding open_roads_def by simp

lemma short_distinct: "distinct xs \<Longrightarrow> (length xs \<le> 1) = (\<forall>x\<in>set xs. \<forall>y\<in>set xs. x = y)"
proof (cases xs)
  case Nil
  then show ?thesis by simp
next
  case (Cons a ys)
  assume d: "distinct xs"
  show ?thesis
  proof (cases ys)
    case Nil
    with Cons show ?thesis by simp
  next
    case (Cons b zs)
    with \<open>xs = a # ys\<close> d show ?thesis by auto
  qed
qed

lemma at_most_one_open_iff:
  "at_most_one_open s = (\<forall>r r'. is_open s r \<and> is_open s r' \<longrightarrow> r = r')"
  unfolding at_most_one_open_def short_distinct [OF distinct_open_roads] set_open_roads
  by blast

lemma bookkept_iff: "bookkept s r = (map_of (last_open_data s) r \<noteq> None)"
  unfolding bookkept_def by (simp add: map_of_eq_None_iff)

lemma entries_own_key_iff:
  "entries_own_key s = (\<forall>r e. map_of (last_open_data s) r = Some e \<longrightarrow> open_road e = r)"
proof
  assume h: "entries_own_key s"
  show "\<forall>r e. map_of (last_open_data s) r = Some e \<longrightarrow> open_road e = r"
  proof (intro allI impI)
    fix r e assume m: "map_of (last_open_data s) r = Some e"
    then have "r \<in> set (map fst (last_open_data s))"
      by (metis map_of_eq_None_iff option.distinct(1) set_map)
    with h m show "open_road e = r"
      unfolding entries_own_key_def list_all_iff by fastforce
  qed
next
  assume h: "\<forall>r e. map_of (last_open_data s) r = Some e \<longrightarrow> open_road e = r"
  show "entries_own_key s"
    unfolding entries_own_key_def list_all_iff
  proof
    fix r assume "r \<in> set (map fst (last_open_data s))"
    then obtain e where "map_of (last_open_data s) r = Some e"
      by (metis map_of_eq_None_iff not_None_eq set_map)
    with h show "case map_of (last_open_data s) r of None \<Rightarrow> False | Some e \<Rightarrow> open_road e = r"
      by simp
  qed
qed

lemma bookkeeping_inv_iff:
  "bookkeeping_inv s =
     ((\<forall>r. is_open s r \<longrightarrow> bookkept s r) \<and>
      (\<forall>r e. map_of (last_open_data s) r = Some e \<longrightarrow> open_road e = r))"
  unfolding bookkeeping_inv_def entries_own_key_iff list_all_iff set_open_roads by auto

subsection \<open>The setters\<close>

lemma lock_traffic_Returned:
  assumes "lock_traffic s r = Returned s'"
  shows "map_of (traffic_lights s') = (map_of (traffic_lights s))(r \<mapsto> False)"
    and "last_open_data s' = last_open_data s"
    and "road_data s' = road_data s"
    and "last_open_time_em s' = last_open_time_em s"
  using assms unfolding lock_traffic_def
  by (auto simp: update_conv' fun_eq_iff split: option.splits if_splits)

lemma lock_traffic_Raised:
  assumes "lock_traffic s r = Raised err s'"
  shows "s' = s" and "err = KeyError" and "map_of (traffic_lights s) r = None"
  using assms unfolding lock_traffic_def by (auto split: option.splits if_splits)

lemma lock_traffic_total:
  "map_of (traffic_lights s) r \<noteq> None \<Longrightarrow> \<exists>s'. lock_traffic s r = Returned s'"
  unfolding lock_traffic_def by (auto split: option.splits)

lemma unlock_traffic_Returned:
  assumes "unlock_traffic s r = Returned s'"
  shows "map_of (traffic_lights s') = (map_of (traffic_lights s))(r \<mapsto> True)"
    and "last_open_data s' = last_open_data s"
    and "road_data s' = road_data s"
    and "last_open_time_em s' = last_open_time_em s"
  using assms unfolding unlock_traffic_def
  by (auto simp: update_conv' fun_eq_iff split: option.splits if_splits)

lemma unlock_traffic_Raised:
  assumes "unlock_traffic s r = Raised err s'"
  shows "s' = s" and "err = KeyError" and "map_of (traffic_lights s) r = None"
  using assms unfolding unlock_traffic_def by (auto split: option.splits if_splits)

lemma unlock_traffic_total:
  "map_of (traffic_lights s) r \<noteq> None \<Longrightarrow> \<exists>s'. unlock_traffic s r = Returned s'"
  unfolding unlock_traffic_def by (auto split: option.splits)

subsection \<open>The locking loop\<close>

lemma only_locked_refl: "only_locked road s s"
  unfolding only_locked_def by simp

lemma only_locked_trans:
  "only_locked road s s1 \<Longrightarrow> only_locked road s1 s2 \<Longrightarrow> only_locked road s s2"
  unfolding only_locked_def by (metis option.inject)

lemma lock_traffic_only_locked:
  assumes "lock_traffic s r = Returned s'" and "map_of (last_open_data s) r = Some e"
    and "open_road e \<noteq> road"
  shows "only_locked road s s'"
proof -
  have m: "map_of (traffic_lights s') = (map_of (traffic_lights s))(r \<mapsto> False)"
    by (rule lock_traffic_Returned(1) [OF assms(1)])
  have dom: "map_of (traffic_lights s) r \<noteq> None"
    using assms(1) unfolding lock_traffic_def by (auto split: option.splits)
  have "\<And>x. map_of (traffic_lights s') x = map_of (traffic_lights s) x \<or>
           (map_of (traffic_lights s') x = Some False \<and> map_of (traffic_lights s) x = Some True \<and>
            (\<exists>e. map_of (last_open_data s) x = Some e \<and> open_road e \<noteq> road))"
    using m dom assms(2,3) by (auto simp: fun_upd_def)
  then show ?thesis
    unfolding only_locked_def using lock_traffic_Returned(2-4) [OF assms(1)] by simp
qed

lemma lock_others_only_locked: "only_locked road s (state_of (lock_others road ks s))"
proof (induction ks arbitrary: s)
  case Nil
  show ?case by (simp add: only_locked_refl)
next
  case (Cons k ks)
  show ?case
  proof (cases "map_of (last_open_data s) k")
    case None
    then show ?thesis by (simp add: only_locked_refl)
  next
    case (Some e)
    show ?thesis
    proof (cases "open_road e \<noteq> road")
      case False
      with Some Cons.IH [of s] show ?thesis by simp
    next
      case True
      show ?thesis
      proof (cases "lock_traffic s k")
        case (Raised err s1)
        then have "s1 = s" by (rule lock_traffic_Raised(1))
        with Some True Raised show ?thesis by (simp add: only_locked_refl)
      next
        case (Returned s1)
        have a: "only_locked road s s1"
          by (rule lock_traffic_only_locked [OF Returned Some True])
        have b: "only_locked road s1 (state_of (lock_others road ks s1))"
          by (rule Cons.IH)
        from Some True Returned only_locked_trans [OF a b] show ?thesis by simp
      qed
    qed
  qed
qed

lemma lock_others_closes:
  "lock_others road ks s = Returned s' \<Longrightarrow> k \<in> set ks \<Longrightarrow>
   map_of (last_open_data s) k = Some e \<Longrightarrow> open_road e \<noteq> road \<Longrightarrow>
   map_of (traffic_lights s') k = Some False"
proof (induction ks arbitrary: s)
  case Nil
  then show ?case by simp
next
  case (Cons k0 ks)
  obtain e0 where e0: "map_of (last_open_data s) k0 = Some e0"
    using Cons.prems(1) by (cases "map_of (last_open_data s) k0") auto
  show ?case
  proof (cases "open_road e0 \<noteq> road")
    case False
    with e0 Cons.prems(1) have r: "lock_others road ks s = Returned s'" by simp
    from False e0 Cons.prems(3,4) have "k \<noteq> k0" by auto
    with Cons.prems(2) have "k \<in> set ks" by simp
    from Cons.IH [OF r this Cons.prems(3,4)] show ?thesis .
  next
    case True
    with e0 Cons.prems(1) obtain s1 where
      l: "lock_traffic s k0 = Returned s1" and r: "lock_others road ks s1 = Returned s'"
      by (cases "lock_traffic s k0") auto
    have lod: "last_open_data s1 = last_open_data s" by (rule lock_traffic_Returned(2) [OF l])
    show ?thesis
    proof (cases "k \<in> set ks")
      case True
      from Cons.IH [OF r True] Cons.prems(3,4) lod show ?thesis by simp
    next
      case False
      with Cons.prems(2) have "k = k0" by simp
      then have "map_of (traffic_lights s1) k = Some False"
        using lock_traffic_Returned(1) [OF l] by simp
      moreover have "only_locked road s1 s'"
        using lock_others_only_locked [of road s1 ks] r by simp
      ultimately show ?thesis unfolding only_locked_def by (metis option.inject)
    qed
  qed
qed

lemma only_locked_dom:
  "only_locked road s s' \<Longrightarrow> (map_of (traffic_lights s') x = None) = (map_of (traffic_lights s) x = None)"
  unfolding only_locked_def by (metis option.distinct(1))

lemma lock_others_total:
  "\<forall>k\<in>set ks. map_of (last_open_data s) k \<noteq> None \<and> map_of (traffic_lights s) k \<noteq> None \<Longrightarrow>
   \<exists>s'. lock_others road ks s = Returned s'"
proof (induction ks arbitrary: s)
  case Nil
  show ?case by simp
next
  case (Cons k ks)
  then obtain e where e: "map_of (last_open_data s) k = Some e" by auto
  show ?case
  proof (cases "open_road e \<noteq> road")
    case False
    with e Cons.IH [of s] Cons.prems show ?thesis by simp
  next
    case True
    from Cons.prems obtain s1 where l: "lock_traffic s k = Returned s1"
      using lock_traffic_total [of s k] by auto
    have ol: "only_locked road s s1" by (rule lock_traffic_only_locked [OF l e True])
    have "\<forall>k\<in>set ks. map_of (last_open_data s1) k \<noteq> None \<and> map_of (traffic_lights s1) k \<noteq> None"
      using Cons.prems only_locked_dom [OF ol] lock_traffic_Returned(2) [OF l] by simp
    from Cons.IH [OF this] e True l show ?thesis by simp
  qed
qed

subsection \<open>Switching to a road\<close>

lemma lock_others_Raised: "lock_others road ks s = Raised err s' \<Longrightarrow> err = KeyError"
proof (induction ks arbitrary: s)
  case Nil
  then show ?case by simp
next
  case (Cons k ks)
  show ?case
  proof (cases "map_of (last_open_data s) k")
    case None
    with Cons.prems show ?thesis by simp
  next
    case (Some e)
    show ?thesis
    proof (cases "open_road e \<noteq> road")
      case False
      with Some Cons.prems Cons.IH [of s] show ?thesis by simp
    next
      case True
      show ?thesis
      proof (cases "lock_traffic s k")
        case (Raised e1 s1)
        with Some True Cons.prems have "err = e1" by simp
        with lock_traffic_Raised(2) [OF Raised] show ?thesis by simp
      next
        case (Returned s1)
        with Some True Cons.prems have "lock_others road ks s1 = Raised err s'" by simp
        then show ?thesis by (rule Cons.IH)
      qed
    qed
  qed
qed

lemma switch_to_Raised:
  assumes "switch_to now road s = Raised err s'"
  shows "only_locked road s s'" and "err = KeyError"
proof -
  show "only_locked road s s'"
  proof (cases "lock_others road (map fst (last_open_data s)) s")
    case (Raised e1 s1)
    with assms have "s' = s1" unfolding switch_to_def by simp
    with Raised lock_others_only_locked [of road s "map fst (last_open_data s)"]
    show ?thesis by simp
  next
    case (Returned s1)
    with assms obtain e2 where u: "unlock_traffic s1 road = Raised e2 s'"
      unfolding switch_to_def by (cases "unlock_traffic s1 road") auto
    then have "s' = s1" using unlock_traffic_Raised(1) by blast
    with Returned lock_others_only_locked [of road s "map fst (last_open_data s)"]
    show ?thesis by simp
  qed
  show "err = KeyError"
  proof (cases "lock_others road (map fst (last_open_data s)) s")
    case (Raised e1 s1)
    with assms have "err = e1" unfolding switch_to_def by simp
    with lock_others_Raised [OF Raised] show ?thesis by simp
  next
    case (Returned s1)
    with assms obtain e2 where u: "unlock_traffic s1 road = Raised e2 s'" and "err = e2"
      unfolding switch_to_def by (cases "unlock_traffic s1 road") auto
    with unlock_traffic_Raised(2) [OF u] show ?thesis by simp
  qed
qed

lemma switch_to_Returned:
  assumes "switch_to now road s = Returned s'"
  obtains s1 where "lock_others road (map fst (last_open_data s)) s = Returned s1"
    and "map_of (traffic_lights s') = (map_of (traffic_lights s1))(road \<mapsto> True)"
    and "last_open_data s' = AList.update road \<lparr>time = now, open_road = road\<rparr> (last_open_data s)"
    and "road_data s' = road_data s"
    and "last_open_time_em s' = last_open_time_em s"
proof -
  from assms obtain s1 s2 where
    l: "lock_others road (map fst (last_open_data s)) s = Returned s1" and
    u: "unlock_traffic s1 road = Returned s2" and
    e: "s' = set_entry now road s2"
    unfolding switch_to_def by (auto split: outcome.splits)
  have ol: "only_locked road s s1"
    using lock_others_only_locked [of road s "map fst (last_open_data s)"] l by simp
  show ?thesis
  proof (rule that [OF l])
    show "map_of (traffic_lights s') = (map_of (traffic_lights s1))(road \<mapsto> True)"
      using e unlock_traffic_Returned(1) [OF u] by (simp add: set_entry_def)
    show "last_open_data s' = AList.update road \<lparr>time = now, open_road = road\<rparr> (last_open_data s)"
      using e unlock_traffic_Returned(2) [OF u] ol by (simp add: set_entry_def only_locked_def)
    show "road_data s' = road_data s"
      using e unlock_traffic_Returned(3) [OF u] ol by (simp add: set_entry_def only_locked_def)
    show "last_open_time_em s' = last_open_time_em s"
      using e unlock_traffic_Returned(4) [OF u] ol by (simp add: set_entry_def only_locked_def)
  qed
qed

text \<open>After the locking loop has run to its end from a state with the bookkeeping
  invariant, no road other than the target is open.\<close>

lemma lock_others_all_closed:
  assumes inv: "bookkeeping_inv s"
    and l: "lock_others road (map fst (last_open_data s)) s = Returned s1"
    and x: "x \<noteq> road"
  shows "\<not> is_open s1 x"
proof
  assume o1: "is_open s1 x"
  have ol: "only_locked road s s1"
    using lock_others_only_locked [of road s "map fst (last_open_data s)"] l by simp
  then have o: "is_open s x"
    using o1 unfolding only_locked_def is_open_def by (metis option.inject)
  with inv have "bookkept s x" unfolding bookkeeping_inv_iff by blast
  then obtain e where e: "map_of (last_open_data s) x = Some e"
    unfolding bookkept_iff by blast
  with inv have "open_road e = x" unfolding bookkeeping_inv_iff by blast
  with x have ne: "open_road e \<noteq> road" by simp
  have "x \<in> set (map fst (last_open_data s))"
    using e by (metis map_of_eq_None_iff option.distinct(1) set_map)
  from lock_others_closes [OF l this e ne] o1 show False unfolding is_open_def by simp
qed

lemma switch_to_Returned_open:
  assumes inv: "bookkeeping_inv s" and sw: "switch_to now road s = Returned s'"
  shows "bookkeeping_inv s'" and "is_open s' road" and "\<forall>x. x \<noteq> road \<longrightarrow> \<not> is_open s' x"
proof -
  from sw obtain s1 where
    l: "lock_others road (map fst (last_open_data s)) s = Returned s1" and
    tl: "map_of (traffic_lights s') = (map_of (traffic_lights s1))(road \<mapsto> True)" and
    lod: "last_open_data s' = AList.update road \<lparr>time = now, open_road = road\<rparr> (last_open_data s)"
    by (rule switch_to_Returned)
  have closed: "\<And>x. x \<noteq> road \<Longrightarrow> \<not> is_open s1 x"
    by (rule lock_others_all_closed [OF inv l])
  show "is_open s' road" unfolding is_open_def tl by simp
  show c: "\<forall>x. x \<noteq> road \<longrightarrow> \<not> is_open s' x"
    using closed unfolding is_open_def tl by simp
  have own: "\<forall>r e. map_of (last_open_data s) r = Some e \<longrightarrow> open_road e = r"
    using inv unfolding bookkeeping_inv_iff by blast
  show "bookkeeping_inv s'"
    unfolding bookkeeping_inv_iff
  proof (intro conjI allI impI)
    fix r assume "is_open s' r"
    with c have "r = road" by blast
    then show "bookkept s' r" unfolding bookkept_iff lod by (simp add: update_conv')
  next
    fix r e assume m: "map_of (last_open_data s') r = Some e"
    show "open_road e = r"
    proof (cases "r = road")
      case True
      with m have "e = \<lparr>time = now, open_road = road\<rparr>"
        unfolding lod by (simp add: update_conv')
      with True show ?thesis by simp
    next
      case False
      with m have "map_of (last_open_data s) r = Some e"
        unfolding lod by (simp add: update_conv')
      with own show ?thesis by blast
    qed
  qed
qed

lemma only_locked_is_open: "only_locked road s s' \<Longrightarrow> is_open s' x \<Longrightarrow> is_open s x"
  unfolding only_locked_def is_open_def by (metis option.inject)

lemma stable_bookkeeping_inv: "stable bookkeeping_inv"
  unfolding stable_def
proof (intro conjI allI impI)
  fix road s s' assume a: "bookkeeping_inv s \<and> only_locked road s s'"
  then have lod: "last_open_data s' = last_open_data s" unfolding only_locked_def by simp
  have "\<And>x. is_open s' x \<Longrightarrow> is_open s x" using a only_locked_is_open by blast
  with a show "bookkeeping_inv s'"
    unfolding bookkeeping_inv_iff bookkept_iff lod by blast
next
  fix now road s assume a: "bookkeeping_inv s"
  have tl: "is_open (set_entry now road s) = is_open s"
    by (simp add: set_entry_def is_open_def fun_eq_iff)
  have lod: "map_of (last_open_data (set_entry now road s)) =
      (map_of (last_open_data s))(road \<mapsto> \<lparr>time = now, open_road = road\<rparr>)"
    by (simp add: set_entry_def update_conv')
  show "bookkeeping_inv (set_entry now road s)"
    using a unfolding bookkeeping_inv_iff bookkept_iff tl lod by (simp split: if_splits)
next
  fix s t assume "bookkeeping_inv s"
  then show "bookkeeping_inv (s\<lparr>last_open_time_em := t\<rparr>)"
    unfolding bookkeeping_inv_iff bookkept_iff is_open_def by simp
next
  fix s rd assume "bookkeeping_inv s"
  then show "bookkeeping_inv (s\<lparr>road_data := rd\<rparr>)"
    unfolding bookkeeping_inv_iff bookkept_iff is_open_def by simp
next
  fix now road s s' assume "bookkeeping_inv s \<and> switch_to now road s = Returned s'"
  then show "bookkeeping_inv s'" using switch_to_Returned_open(1) by blast
qed

lemma stable_mutex_inv: "stable mutex_inv"
proof -
  have b: "stable bookkeeping_inv" by (rule stable_bookkeeping_inv)
  show ?thesis
    unfolding stable_def
  proof (intro conjI allI impI)
    fix road s s' assume a: "mutex_inv s \<and> only_locked road s s'"
    then have "bookkeeping_inv s'" using b unfolding stable_def mutex_inv_def by blast
    moreover have "at_most_one_open s'"
      using a only_locked_is_open unfolding mutex_inv_def at_most_one_open_iff by blast
    ultimately show "mutex_inv s'" unfolding mutex_inv_def by simp
  next
    fix now road s assume a: "mutex_inv s"
    then have "bookkeeping_inv (set_entry now road s)"
      using b unfolding stable_def mutex_inv_def by blast
    moreover have "at_most_one_open (set_entry now road s)"
      using a unfolding mutex_inv_def at_most_one_open_iff is_open_def set_entry_def by simp
    ultimately show "mutex_inv (set_entry now road s)" unfolding mutex_inv_def by simp
  next
    fix s t assume a: "mutex_inv s"
    then have "bookkeeping_inv (s\<lparr>last_open_time_em := t\<rparr>)"
      using b unfolding stable_def mutex_inv_def by blast
    moreover have "at_most_one_open (s\<lparr>last_open_time_em := t\<rparr>)"
      using a unfolding mutex_inv_def at_most_one_open_iff is_open_def by simp
    ultimately show "mutex_inv (s\<lparr>last_open_time_em := t\<rparr>)" unfolding mutex_inv_def by simp
  next
    fix s rd assume a: "mutex_inv s"
    then have "bookkeeping_inv (s\<lparr>road_data := rd\<rparr>)"
      using b unfolding stable_def mutex_inv_def by blast
    moreover have "at_most_one_open (s\<lparr>road_data := rd\<rparr>)"
      using a unfolding mutex_inv_def at_most_one_open_iff is_open_def by simp
    ultimately show "mutex_inv (s\<lparr>road_data := rd\<rparr>)" unfolding mutex_inv_def by simp
  next
    fix now road s s'
    assume a: "mutex_inv s \<and> switch_to now road s = Returned s'"
    then have bi: "bookkeeping_inv s" and sw: "switch_to now road s = Returned s'"
      unfolding mutex_inv_def by simp_all
    have "at_most_one_open s'"
      unfolding at_most_one_open_iff
    proof (intro allI impI)
      fix r r' assume "is_open s' r \<and> is_open s' r'"
      with switch_to_Returned_open(3) [OF bi sw] have "r = road" and "r' = road" by blast+
      then show "r = r'" by simp
    qed
    with switch_to_Returned_open(1) [OF bi sw]
    show "mutex_inv s'" unfolding mutex_inv_def by simp
  qed
qed

lemma bookkeeping_inv_init: "bookkeeping_inv (init roads)"
proof -
  have "map_of (map (\<lambda>road. (road, False)) roads) r \<noteq> Some True" for r :: road
    by (induction roads) auto
  then show ?thesis unfolding bookkeeping_inv_iff is_open_def by (simp add: init_def)
qed

lemma mutex_inv_init: "mutex_inv (init roads)"
proof -
  have "map_of (map (\<lambda>road. (road, False)) roads) r \<noteq> Some True" for r :: road
    by (induction roads) auto
  then have "at_most_one_open (init roads)"
    unfolding at_most_one_open_iff is_open_def by (simp add: init_def)
  with bookkeeping_inv_init show ?thesis unfolding mutex_inv_def by simp
qed

subsection \<open>\<open>update_traffic_with_lock\<close>\<close>

lemma density_switch_Raised:
  assumes "density_switch now s road em = Raised err s'"
  shows "switch_to now road s = Raised err s'"
  using assms unfolding density_switch_def
  by (cases "switch_to now road s") (simp_all split: if_splits)

lemma density_switch_Returned:
  assumes "density_switch now s road em = Returned s'"
  shows "s' = s \<or> (\<exists>s1. switch_to now road s = Returned s1 \<and> s' = s1\<lparr>last_open_time_em := 0\<rparr> \<and>
           map_of (traffic_lights s) road = Some False \<and> now - entry_time s road \<ge> 10 \<and>
           \<not> em \<and> now - last_open_time_em s \<ge> 10)"
  using assms unfolding density_switch_def
  by (cases "switch_to now road s") (auto split: if_splits)

lemma try_body_Raised:
  assumes "try_body now s road em = Raised err s'"
  shows "err = KeyError" and "only_locked road s s'"
proof -
  have "(s' = s \<and> err = KeyError) \<or> switch_to now road s = Raised err s'"
    using assms unfolding try_body_def
    by (cases "switch_to now road s")
       (auto split: if_splits option.splits dest: density_switch_Raised)
  then show "err = KeyError" and "only_locked road s s'"
    using switch_to_Raised only_locked_refl by blast+
qed

lemma try_body_Returned:
  assumes "try_body now s road em = Returned s'"
  shows "s' = s \<or> (\<exists>s1 t. switch_to now road s = Returned s1 \<and> s' = s1\<lparr>last_open_time_em := t\<rparr>
            \<and> map_of (traffic_lights s) road = Some False)"
proof (cases "em \<and> map_of (traffic_lights s) road = Some False")
  case True
  with assms show ?thesis
    unfolding try_body_def by (cases "switch_to now road s") auto
next
  case False
  with assms have "density_switch now s road em = Returned s'"
    unfolding try_body_def by (auto split: if_splits option.splits)
  from density_switch_Returned [OF this] show ?thesis by blast
qed

lemma update_traffic_with_lock_returns:
  "\<exists>s'. update_traffic_with_lock now s road em = Returned s'"
proof (cases "try_body now s road em")
  case (Returned s')
  then show ?thesis unfolding update_traffic_with_lock_def by simp
next
  case (Raised err s')
  with try_body_Raised(1) [OF Raised] show ?thesis
    unfolding update_traffic_with_lock_def by simp
qed

lemma stable_dest:
  assumes "stable J" and "J s"
  shows "only_locked road s s' \<Longrightarrow> J s'"
    and "J (set_entry now road s)"
    and "J (s\<lparr>last_open_time_em := t\<rparr>)"
    and "J (s\<lparr>road_data := rd\<rparr>)"
    and "switch_to now road s = Returned s' \<Longrightarrow> J s'"
  using assms unfolding stable_def by blast+

lemma stable_update_traffic_with_lock:
  assumes st: "stable J" and j: "J s"
  shows "J (state_of (update_traffic_with_lock now s road em))"
proof (cases "try_body now s road em")
  case (Returned s')
  from try_body_Returned [OF Returned] have "J s'"
  proof
    assume "s' = s"
    with j show ?thesis by simp
  next
    assume "\<exists>s1 t. switch_to now road s = Returned s1 \<and> s' = s1\<lparr>last_open_time_em := t\<rparr>
            \<and> map_of (traffic_lights s) road = Some False"
    then obtain s1 t where sw: "switch_to now road s = Returned s1"
      and s': "s' = s1\<lparr>last_open_time_em := t\<rparr>" by blast
    have "J s1" by (rule stable_dest(5) [OF st j sw])
    from stable_dest(3) [OF st this] s' show ?thesis by simp
  qed
  with Returned show ?thesis unfolding update_traffic_with_lock_def by simp
next
  case (Raised err s')
  have "J s'"
    by (rule stable_dest(1) [OF st j try_body_Raised(2) [OF Raised]])
  then have "J (set_entry now road s')" by (rule stable_dest(2) [OF st])
  with Raised try_body_Raised(1) [OF Raised] show ?thesis
    unfolding update_traffic_with_lock_def by simp
qed

subsection \<open>\<open>update_traffic_light\<close>\<close>

lemma emergency_scan_returns: "\<exists>s'. emergency_scan now s rc = Returned s'"
proof (induction rc)
  case Nil
  show ?case by simp
next
  case (Cons p rc)
  obtain road c where p: "p = (road, c)" by (cases p)
  show ?case
    using Cons.IH update_traffic_with_lock_returns [of now s road True]
    unfolding p by simp
qed

lemma stable_emergency_scan:
  assumes st: "stable J" and j: "J s"
  shows "J (state_of (emergency_scan now s rc))"
proof (induction rc)
  case Nil
  with j show ?case by simp
next
  case (Cons p rc)
  obtain road c where p: "p = (road, c)" by (cases p)
  show ?case
    using Cons.IH stable_update_traffic_with_lock [OF st j, of now road True]
    unfolding p by simp
qed

lemma density_loop_returns: "\<exists>s'. density_loop now m s ks = Returned s'"
proof (induction ks arbitrary: s)
  case Nil
  show ?case by simp
next
  case (Cons k ks)
  obtain s1 where u: "update_traffic_with_lock now s k False = Returned s1"
    using update_traffic_with_lock_returns by blast
  show ?case
  proof (cases "k = m")
    case True
    with Cons.IH [of s1] u show ?thesis by simp
  next
    case False
    with Cons.IH [of s] show ?thesis by simp
  qed
qed

lemma stable_density_loop:
  assumes st: "stable J"
  shows "J s \<Longrightarrow> J (state_of (density_loop now m s ks))"
proof (induction ks arbitrary: s)
  case Nil
  then show ?case by simp
next
  case (Cons k ks)
  obtain s1 where u: "update_traffic_with_lock now s k False = Returned s1"
    using update_traffic_with_lock_returns by blast
  have "J s1"
    using stable_update_traffic_with_lock [OF st Cons.prems, of now k False] u by simp
  then have a: "J (state_of (density_loop now m s1 ks))" by (rule Cons.IH)
  have b: "J (state_of (density_loop now m s ks))" using Cons.prems by (rule Cons.IH)
  show ?case
  proof (cases "k = m")
    case True
    with a u show ?thesis by simp
  next
    case False
    with b show ?thesis by simp
  qed
qed

lemma stable_update_traffic_light:
  assumes st: "stable J" and j: "J s"
  shows "J (state_of (update_traffic_light now s))"
proof (cases "road_data s")
  case None
  with j show ?thesis unfolding update_traffic_light_def by simp
next
  case (Some rd)
  show ?thesis
  proof (cases "has_emergency (road_counts_of rd)")
    case True
    with Some stable_emergency_scan [OF st j] show ?thesis
      unfolding update_traffic_light_def by simp
  next
    case False
    show ?thesis
    proof (cases "py_max snd (total_counts (road_counts_of rd))")
      case None
      with Some False j show ?thesis unfolding update_traffic_light_def by simp
    next
      case (Some m)
      with \<open>road_data s = Some rd\<close> False stable_density_loop [OF st j] show ?thesis
        unfolding update_traffic_light_def by simp
    qed
  qed
qed

lemma stable_process_and_update_traffic:
  assumes st: "stable J" and j: "J s"
  shows "J (state_of (process_and_update_traffic now rd s))"
proof -
  have "J (s\<lparr>road_data := Some rd\<rparr>)" by (rule stable_dest(4) [OF st j])
  then show ?thesis
    unfolding process_and_update_traffic_def by (rule stable_update_traffic_light [OF st])
qed

subsection \<open>\<open>check_and_open_overdue_road\<close>\<close>

lemma stable_switch_to:
  assumes st: "stable J" and j: "J s"
  shows "J (state_of (switch_to now road s))"
proof (cases "switch_to now road s")
  case (Returned s')
  with stable_dest(5) [OF st j Returned] show ?thesis by simp
next
  case (Raised err s')
  with stable_dest(1) [OF st j switch_to_Raised(1) [OF Raised]] show ?thesis by simp
qed

lemma stable_open_overdue:
  assumes st: "stable J" and j: "J s"
  shows "J (state_of (open_overdue now s))"
proof (cases "eligible_roads now s (map fst (last_open_data s))")
  case (Inl err)
  with j show ?thesis unfolding open_overdue_def by simp
next
  case (Inr eligible)
  show ?thesis
  proof (cases "py_max (car_of s) eligible")
    case None
    with Inr j show ?thesis unfolding open_overdue_def by simp
  next
    case (Some r)
    with Inr j stable_switch_to [OF st j, of now r] show ?thesis
      unfolding open_overdue_def by simp
  qed
qed

lemma stable_overdue_scan:
  assumes st: "stable J" and j: "J s"
  shows "J (state_of (overdue_scan now s ks))"
proof (induction ks)
  case Nil
  with j show ?case by simp
next
  case (Cons k ks)
  show ?case
    using Cons.IH j stable_open_overdue [OF st j, of now]
    by (cases "map_of (last_open_data s) k") simp_all
qed

lemma stable_check_and_open_overdue_road:
  "stable J \<Longrightarrow> J s \<Longrightarrow> J (state_of (check_and_open_overdue_road now s))"
  unfolding check_and_open_overdue_road_def by (rule stable_overdue_scan)

lemma stable_step: "stable J \<Longrightarrow> J s \<Longrightarrow> J (state_of (step c s))"
  by (cases c) (simp_all add: stable_process_and_update_traffic stable_check_and_open_overdue_road)

lemma stable_run: "stable J \<Longrightarrow> J s \<Longrightarrow> J (run s cs)"
  by (induction cs arbitrary: s) (simp_all add: stable_step)

lemmas eval_defs = init_def lock_traffic_def unlock_traffic_def set_entry_def switch_to_def entry_time_def
  density_switch_def try_body_def update_traffic_with_lock_def road_counts_of_def has_emergency_def
  py_max_def total_counts_def update_traffic_light_def process_and_update_traffic_def car_of_def
  open_overdue_def check_and_open_overdue_road_def is_open_def bookkept_def snapshot_def
  open_roads_def at_most_one_open_def

lemmas example_defs = two_roads_def road1_busy_def road2_busy_def road1_opened_def
  road2_opened_def

subsection \<open>What one call of \<open>update_traffic_with_lock\<close> does\<close>

lemma update_traffic_with_lock_density:
  "update_traffic_with_lock now s road False =
     (if map_of (traffic_lights s) road = Some False \<and> now - entry_time s road \<ge> 10 \<and>
         now - last_open_time_em s \<ge> 10
      then (case switch_to now road s of
              Returned s1 \<Rightarrow> Returned (s1\<lparr>last_open_time_em := 0\<rparr>)
            | Raised err s1 \<Rightarrow> Returned (set_entry now road s1))
      else Returned s)"
proof (cases "switch_to now road s")
  case (Returned s1)
  then show ?thesis
    unfolding update_traffic_with_lock_def try_body_def density_switch_def by auto
next
  case (Raised err s1)
  with switch_to_Raised(2) [OF Raised] show ?thesis
    unfolding update_traffic_with_lock_def try_body_def density_switch_def by auto
qed

lemma update_traffic_with_lock_emergency:
  "update_traffic_with_lock now s road True =
     (case map_of (traffic_lights s) road of
        None \<Rightarrow> Returned (set_entry now road s)
      | Some b \<Rightarrow>
          if \<not> b then
            (case switch_to now road s of
               Returned s1 \<Rightarrow> Returned (s1\<lparr>last_open_time_em := now\<rparr>)
             | Raised err s1 \<Rightarrow> Returned (set_entry now road s1))
          else Returned s)"
proof (cases "switch_to now road s")
  case (Returned s1)
  then show ?thesis
    unfolding update_traffic_with_lock_def try_body_def density_switch_def
    by (auto split: option.splits)
next
  case (Raised err s1)
  with switch_to_Raised(2) [OF Raised] show ?thesis
    unfolding update_traffic_with_lock_def try_body_def density_switch_def
    by (auto split: option.splits)
qed

lemma switch_to_Returned_light:
  assumes "switch_to now road s = Returned s'"
  shows "map_of (traffic_lights s') road = Some True"
    and "entry_time s' road = now"
proof -
  from assms obtain s1 where
    l: "lock_others road (map fst (last_open_data s)) s = Returned s1" and
    tl: "map_of (traffic_lights s') = (map_of (traffic_lights s1))(road \<mapsto> True)" and
    lod: "last_open_data s' = AList.update road \<lparr>time = now, open_road = road\<rparr> (last_open_data s)"
    by (rule switch_to_Returned)
  show "map_of (traffic_lights s') road = Some True" unfolding tl by simp
  show "entry_time s' road = now" unfolding entry_time_def lod by (simp add: update_conv')
qed

text \<open>A second density call for the same road at the same instant changes nothing.\<close>

lemma update_traffic_with_lock_density_again:
  assumes "update_traffic_with_lock now s road False = Returned s'"
  shows "update_traffic_with_lock now s' road False = Returned s'"
proof (cases "map_of (traffic_lights s) road = Some False \<and> now - entry_time s road \<ge> 10 \<and>
         now - last_open_time_em s \<ge> 10")
  case False
  then have same: "update_traffic_with_lock now s road False = Returned s"
    unfolding update_traffic_with_lock_density by (rule if_not_P)
  with assms have "s' = s" by simp
  with same show ?thesis by simp
next
  case True
  show ?thesis
  proof (cases "switch_to now road s")
    case (Returned s1)
    with True assms have s': "s' = s1\<lparr>last_open_time_em := 0\<rparr>"
      unfolding update_traffic_with_lock_density by simp
    have "map_of (traffic_lights s') road = Some True"
      unfolding s' using switch_to_Returned_light(1) [OF Returned] by simp
    then show ?thesis unfolding update_traffic_with_lock_density [of now s'] by simp
  next
    case (Raised err s1)
    with True assms have s': "s' = set_entry now road s1"
      unfolding update_traffic_with_lock_density by simp
    have "entry_time s' road = now"
      unfolding s' entry_time_def set_entry_def by (simp add: update_conv')
    then show ?thesis unfolding update_traffic_with_lock_density [of now s'] by simp
  qed
qed

lemma density_loop_fixed:
  "update_traffic_with_lock now s m False = Returned s \<Longrightarrow> density_loop now m s ks = Returned s"
  by (induction ks) auto

lemma density_loop_single:
  "m \<in> set ks \<Longrightarrow> density_loop now m s ks = update_traffic_with_lock now s m False"
proof (induction ks)
  case Nil
  then show ?case by simp
next
  case (Cons k ks)
  show ?case
  proof (cases "k = m")
    case True
    obtain s1 where u: "update_traffic_with_lock now s m False = Returned s1"
      using update_traffic_with_lock_returns by blast
    have "density_loop now m s1 ks = Returned s1"
      by (rule density_loop_fixed [OF update_traffic_with_lock_density_again [OF u]])
    with True u show ?thesis by simp
  next
    case False
    with Cons show ?thesis by simp
  qed
qed

subsection \<open>Python's \<open>max\<close>\<close>

lemma max_from_mem: "max_from key b xs \<in> set (b # xs)"
  by (induction xs arbitrary: b) (auto split: if_splits)

lemma max_from_ge: "x \<in> set (b # xs) \<Longrightarrow> key x \<le> key (max_from key b xs)"
proof (induction xs arbitrary: b x)
  case Nil
  then show ?case by simp
next
  case (Cons a xs)
  show ?case
  proof (cases "key b < key a")
    case True
    have ba: "key b \<le> key (max_from key a xs)"
      using Cons.IH [of a a] True by simp
    from Cons.prems have "x = b \<or> x \<in> set (a # xs)" by auto
    then have "key x \<le> key (max_from key a xs)"
      using ba Cons.IH [of x a] by auto
    with True show ?thesis by simp
  next
    case False
    have ab: "key a \<le> key (max_from key b xs)"
      using Cons.IH [of b b] False by simp
    from Cons.prems have "x = a \<or> x \<in> set (b # xs)" by auto
    then have "key x \<le> key (max_from key b xs)"
      using ab Cons.IH [of x b] by auto
    with False show ?thesis by simp
  qed
qed

lemma py_max_Some:
  assumes "py_max key xs = Some m"
  shows "m \<in> set xs" and "\<forall>x\<in>set xs. key x \<le> key m"
proof -
  from assms obtain b rest where xs: "xs = b # rest" and m: "m = max_from key b rest"
    unfolding py_max_def by (cases xs) auto
  show "m \<in> set xs" unfolding xs m by (rule max_from_mem)
  show "\<forall>x\<in>set xs. key x \<le> key m" unfolding xs m by (intro ballI max_from_ge)
qed

lemma py_max_None: "(py_max key xs = None) = (xs = [])"
  unfolding py_max_def by (cases xs) auto

lemma density_selected_mem:
  assumes "density_selected rd = Some m"
  shows "m \<in> set (map fst rd)"
proof -
  from assms obtain p where p: "py_max snd (total_counts (road_counts_of rd)) = Some p"
    and m: "m = fst p" unfolding density_selected_def by auto
  have "p \<in> set (total_counts (road_counts_of rd))" by (rule py_max_Some(1) [OF p])
  then have "fst p \<in> fst ` set (total_counts (road_counts_of rd))" by (rule imageI)
  also have "fst ` set (total_counts (road_counts_of rd)) = fst ` set rd"
    unfolding total_counts_def road_counts_of_def by (force simp: image_iff)
  finally show ?thesis unfolding m by simp
qed

subsection \<open>What a tick does\<close>

lemma tick_density:
  assumes "\<not> has_emergency (road_counts_of rd)" and "density_selected rd = Some m"
  shows "process_and_update_traffic now rd s =
           update_traffic_with_lock now (s\<lparr>road_data := Some rd\<rparr>) m False"
proof -
  from assms(2) obtain p where p: "py_max snd (total_counts (road_counts_of rd)) = Some p"
    and m: "m = fst p" unfolding density_selected_def by auto
  have "density_loop now m (s\<lparr>road_data := Some rd\<rparr>) (map fst rd) =
          update_traffic_with_lock now (s\<lparr>road_data := Some rd\<rparr>) m False"
    by (rule density_loop_single [OF density_selected_mem [OF assms(2)]])
  with assms(1) p m show ?thesis
    unfolding process_and_update_traffic_def update_traffic_light_def by simp
qed

lemma emergency_scan_selected:
  "emergency_scan now s rc =
     (case emergency_selected rc of
        None \<Rightarrow> Returned s
      | Some road \<Rightarrow> update_traffic_with_lock now s road True)"
proof (induction rc)
  case Nil
  show ?case by (simp add: emergency_selected_def)
next
  case (Cons p rc)
  obtain road c where p: "p = (road, c)" by (cases p)
  show ?case using Cons.IH unfolding p emergency_selected_def by simp
qed

lemma has_emergency_selected: "has_emergency rc = (emergency_selected rc \<noteq> None)"
  unfolding has_emergency_def emergency_selected_def
  by (induction rc) (auto simp: list_ex_iff)

lemma tick_emergency:
  assumes "emergency_selected (road_counts_of rd) = Some road"
  shows "process_and_update_traffic now rd s =
           update_traffic_with_lock now (s\<lparr>road_data := Some rd\<rparr>) road True"
  using assms has_emergency_selected [of "road_counts_of rd"]
  unfolding process_and_update_traffic_def update_traffic_light_def
  by (simp add: emergency_scan_selected)

lemma bookkept_key: "k \<in> set (map fst (last_open_data s)) \<Longrightarrow> map_of (last_open_data s) k \<noteq> None"
  by (simp add: map_of_eq_None_iff)

lemma switch_to_total:
  assumes "configured s" and "map_of (traffic_lights s) road \<noteq> None"
  shows "\<exists>s'. switch_to now road s = Returned s'"
proof -
  have "\<forall>k\<in>set (map fst (last_open_data s)).
          map_of (last_open_data s) k \<noteq> None \<and> map_of (traffic_lights s) k \<noteq> None"
    using assms(1) bookkept_key unfolding configured_def list_all_iff by blast
  then obtain s1 where l: "lock_others road (map fst (last_open_data s)) s = Returned s1"
    using lock_others_total by blast
  have ol: "only_locked road s s1"
    using lock_others_only_locked [of road s "map fst (last_open_data s)"] l by simp
  have "map_of (traffic_lights s1) road \<noteq> None"
    using assms(2) by (simp add: only_locked_dom [OF ol])
  then obtain s2 where "unlock_traffic s1 road = Returned s2"
    using unlock_traffic_total by blast
  with l show ?thesis unfolding switch_to_def by simp
qed

lemmas more_example_defs = ambulance_on_road1_def three_roads_def police_first_def

lemmas select_defs = emergency_selected_def density_selected_def configured_def
  entries_own_key_def bookkeeping_inv_def

subsection \<open>Configured roads\<close>

lemma lights_of_iff:
  "lights_of roads s =
     ((\<forall>k. (map_of (traffic_lights s) k \<noteq> None) = (k \<in> set roads)) \<and>
      (\<forall>k. map_of (last_open_data s) k \<noteq> None \<longrightarrow> k \<in> set roads))"
proof -
  have a: "(set (map fst (traffic_lights s)) = set roads) =
      (\<forall>k. (map_of (traffic_lights s) k \<noteq> None) = (k \<in> set roads))"
    by (auto simp: map_of_eq_None_iff)
  have b: "configured s =
      (\<forall>k. map_of (last_open_data s) k \<noteq> None \<longrightarrow> map_of (traffic_lights s) k \<noteq> None)"
    unfolding configured_def list_all_iff by (auto simp: map_of_eq_None_iff)
  show ?thesis unfolding lights_of_def a b by blast
qed

lemma lights_of_init: "lights_of roads (init roads)"
  unfolding lights_of_def configured_def init_def by (simp add: comp_def)

lemma lights_of_configured: "lights_of roads s \<Longrightarrow> configured s"
  unfolding lights_of_def by simp

lemma lights_of_only_locked:
  assumes "lights_of roads s" and "only_locked road s s'"
  shows "lights_of roads s'"
proof -
  have lod: "last_open_data s' = last_open_data s"
    using assms(2) unfolding only_locked_def by simp
  have "\<And>k. (map_of (traffic_lights s') k \<noteq> None) = (map_of (traffic_lights s) k \<noteq> None)"
    using only_locked_dom [OF assms(2)] by simp
  with assms(1) show ?thesis unfolding lights_of_iff lod by simp
qed

lemma lights_of_fields [simp]:
  "lights_of roads (s\<lparr>last_open_time_em := t\<rparr>) = lights_of roads s"
  "lights_of roads (s\<lparr>road_data := rd\<rparr>) = lights_of roads s"
  unfolding lights_of_def configured_def by simp_all

lemma lights_of_switch_to:
  assumes w: "lights_of roads s" and r: "road \<in> set roads"
  shows "\<exists>s'. switch_to now road s = Returned s' \<and> lights_of roads s'"
proof -
  have dom: "map_of (traffic_lights s) road \<noteq> None" using w r unfolding lights_of_iff by simp
  obtain s' where sw: "switch_to now road s = Returned s'"
    using switch_to_total [OF lights_of_configured [OF w] dom] by blast
  from sw obtain s1 where
    l: "lock_others road (map fst (last_open_data s)) s = Returned s1" and
    tl: "map_of (traffic_lights s') = (map_of (traffic_lights s1))(road \<mapsto> True)" and
    lod: "last_open_data s' = AList.update road \<lparr>time = now, open_road = road\<rparr> (last_open_data s)"
    by (rule switch_to_Returned)
  have ol: "only_locked road s s1"
    using lock_others_only_locked [of road s "map fst (last_open_data s)"] l by simp
  have w1: "lights_of roads s1" by (rule lights_of_only_locked [OF w ol])
  have lod1: "last_open_data s1 = last_open_data s" using ol unfolding only_locked_def by simp
  have "lights_of roads s'"
    using w1 r unfolding lights_of_iff tl lod lod1 by (auto simp: update_conv')
  with sw show ?thesis by blast
qed

lemma lights_of_update_traffic_with_lock:
  assumes w: "lights_of roads s" and r: "road \<in> set roads"
  shows "lights_of roads (state_of (update_traffic_with_lock now s road em))"
proof -
  have dom: "map_of (traffic_lights s) road \<noteq> None" using w r unfolding lights_of_iff by simp
  obtain s1 where sw: "switch_to now road s = Returned s1" and w1: "lights_of roads s1"
    using lights_of_switch_to [OF w r] by blast
  show ?thesis
  proof (cases em)
    case True
    with dom sw w w1 show ?thesis
      by (auto simp: update_traffic_with_lock_emergency split: option.splits)
  next
    case False
    with sw w w1 show ?thesis
      by (simp add: update_traffic_with_lock_density)
  qed
qed

lemma lights_of_emergency_scan:
  assumes w: "lights_of roads s"
  shows "\<forall>k\<in>set (map fst rc). k \<in> set roads \<Longrightarrow> lights_of roads (state_of (emergency_scan now s rc))"
proof (induction rc)
  case Nil
  with w show ?case by simp
next
  case (Cons p rc)
  obtain road c where p: "p = (road, c)" by (cases p)
  have r: "road \<in> set roads" using Cons.prems unfolding p by simp
  have ih: "lights_of roads (state_of (emergency_scan now s rc))"
    using Cons.IH Cons.prems by simp
  show ?case
    using ih lights_of_update_traffic_with_lock [OF w r, of now True]
    unfolding p by simp
qed

lemma lights_of_density_loop:
  "lights_of roads s \<Longrightarrow> \<forall>k\<in>set ks. k \<in> set roads \<Longrightarrow>
   lights_of roads (state_of (density_loop now m s ks))"
proof (induction ks arbitrary: s)
  case Nil
  then show ?case by simp
next
  case (Cons k ks)
  have r: "k \<in> set roads" using Cons.prems(2) by simp
  have rest: "\<forall>k\<in>set ks. k \<in> set roads" using Cons.prems(2) by simp
  obtain s1 where u: "update_traffic_with_lock now s k False = Returned s1"
    using update_traffic_with_lock_returns by blast
  have "lights_of roads s1"
    using lights_of_update_traffic_with_lock [OF Cons.prems(1) r, of now False] u by simp
  then have a: "lights_of roads (state_of (density_loop now m s1 ks))"
    using rest by (rule Cons.IH)
  have b: "lights_of roads (state_of (density_loop now m s ks))"
    using Cons.prems(1) rest by (rule Cons.IH)
  show ?case
  proof (cases "k = m")
    case True
    with a u show ?thesis by simp
  next
    case False
    with b show ?thesis by simp
  qed
qed

lemma lights_of_process_and_update_traffic:
  assumes w: "lights_of roads s" and k: "\<forall>k\<in>set (map fst rd). k \<in> set roads"
  shows "lights_of roads (state_of (process_and_update_traffic now rd s))"
proof -
  let ?s = "s\<lparr>road_data := Some rd\<rparr>"
  have w': "lights_of roads ?s" using w by simp
  have keys: "map fst (road_counts_of rd) = map fst rd"
    unfolding road_counts_of_def by (induction rd) auto
  show ?thesis
  proof (cases "has_emergency (road_counts_of rd)")
    case True
    have "lights_of roads (state_of (emergency_scan now ?s (road_counts_of rd)))"
      using k by (intro lights_of_emergency_scan [OF w']) (simp only: keys)
    with True show ?thesis
      unfolding process_and_update_traffic_def update_traffic_light_def by simp
  next
    case False
    show ?thesis
    proof (cases "py_max snd (total_counts (road_counts_of rd))")
      case None
      with False w' show ?thesis
        unfolding process_and_update_traffic_def update_traffic_light_def by simp
    next
      case (Some m)
      have "lights_of roads (state_of (density_loop now (fst m) ?s (map fst rd)))"
        by (rule lights_of_density_loop [OF w' k])
      with False Some show ?thesis
        unfolding process_and_update_traffic_def update_traffic_light_def by simp
    qed
  qed
qed

lemma eligible_roads_subset:
  "eligible_roads now s ks = Inr rs \<Longrightarrow> set rs \<subseteq> set ks"
proof (induction ks arbitrary: rs)
  case Nil
  then show ?case by simp
next
  case (Cons k ks)
  show ?case
  proof (cases "eligible_roads now s ks")
    case (Inl err)
    with Cons.prems show ?thesis
      by (auto split: option.splits if_splits)
  next
    case (Inr rs0)
    from Cons.IH [OF Inr] have sub: "set rs0 \<subseteq> set ks" .
    from Cons.prems Inr have "rs = rs0 \<or> rs = k # rs0"
      by (auto split: option.splits if_splits)
    with sub show ?thesis by auto
  qed
qed

lemma lights_of_open_overdue:
  assumes w: "lights_of roads s"
  shows "lights_of roads (state_of (open_overdue now s))"
proof (cases "eligible_roads now s (map fst (last_open_data s))")
  case (Inl err)
  with w show ?thesis unfolding open_overdue_def by simp
next
  case (Inr eligible)
  show ?thesis
  proof (cases "py_max (car_of s) eligible")
    case None
    with Inr w show ?thesis unfolding open_overdue_def by simp
  next
    case (Some r)
    have "r \<in> set eligible" by (rule py_max_Some(1) [OF Some])
    with eligible_roads_subset [OF Inr] have "r \<in> set (map fst (last_open_data s))" by blast
    then have "map_of (last_open_data s) r \<noteq> None" by (rule bookkept_key)
    with w have "r \<in> set roads" unfolding lights_of_iff by blast
    from lights_of_switch_to [OF w this, of now] Inr Some w show ?thesis
      unfolding open_overdue_def by auto
  qed
qed

lemma lights_of_check_and_open_overdue_road:
  assumes w: "lights_of roads s"
  shows "lights_of roads (state_of (check_and_open_overdue_road now s))"
proof -
  have "lights_of roads (state_of (overdue_scan now s ks))" for ks
  proof (induction ks)
    case Nil
    with w show ?case by simp
  next
    case (Cons k ks)
    show ?case
      using Cons.IH w lights_of_open_overdue [OF w, of now]
      by (cases "map_of (last_open_data s) k") simp_all
  qed
  then show ?thesis unfolding check_and_open_overdue_road_def .
qed

lemma lights_of_run:
  "lights_of roads s \<Longrightarrow> list_all (snapshot_within roads) calls \<Longrightarrow> lights_of roads (run s calls)"
proof (induction calls arbitrary: s)
  case Nil
  then show ?case by simp
next
  case (Cons c calls)
  have "lights_of roads (state_of (step c s))"
  proof (cases c)
    case (Tick now rd)
    with Cons.prems(2) have "\<forall>k\<in>set (map fst rd). k \<in> set roads"
      by (simp add: list_all_iff)
    with Tick lights_of_process_and_update_traffic [OF Cons.prems(1)] show ?thesis by simp
  next
    case (Sweep now)
    with lights_of_check_and_open_overdue_road [OF Cons.prems(1)] show ?thesis by simp
  qed
  with Cons.IH Cons.prems(2) show ?case by simp
qed

lemma reachable_state:
  assumes "list_all (snapshot_within roads) calls"
  shows "bookkeeping_inv (run (init roads) calls)"
    and "configured (run (init roads) calls)"
    and "at_most_one_open (run (init roads) calls)"
proof -
  have "mutex_inv (run (init roads) calls)"
    by (rule stable_run [OF stable_mutex_inv mutex_inv_init])
  then show "bookkeeping_inv (run (init roads) calls)"
    and "at_most_one_open (run (init roads) calls)" unfolding mutex_inv_def by simp_all
  show "configured (run (init roads) calls)"
    by (rule lights_of_configured [OF lights_of_run [OF lights_of_init assms]])
qed

subsection \<open>The sweep\<close>

lemma overdue_scan_first:
  "set ks \<subseteq> set (map fst (last_open_data s)) \<Longrightarrow>
   overdue_scan now s ks =
     (if list_ex (\<lambda>road. now - entry_time s road \<ge> 120) ks then open_overdue now s
      else Returned s)"
proof (induction ks)
  case Nil
  show ?case by simp
next
  case (Cons k ks)
  from Cons.prems have "k \<in> set (map fst (last_open_data s))" by simp
  then have "map_of (last_open_data s) k \<noteq> None" by (rule bookkept_key)
  then obtain e where e: "map_of (last_open_data s) k = Some e" by blast
  then have t: "entry_time s k = time e" unfolding entry_time_def by simp
  from Cons.IH Cons.prems have ih: "overdue_scan now s ks =
     (if list_ex (\<lambda>road. now - entry_time s road \<ge> 120) ks then open_overdue now s
      else Returned s)" by simp
  show ?case using e t ih by simp
qed

lemma open_overdue_one:
  "(\<exists>road. open_overdue now s = switch_to now road s) \<or> state_of (open_overdue now s) = s"
proof (cases "eligible_roads now s (map fst (last_open_data s))")
  case (Inl err)
  then show ?thesis unfolding open_overdue_def by simp
next
  case (Inr eligible)
  then show ?thesis
    unfolding open_overdue_def by (cases "py_max (car_of s) eligible") auto
qed

subsection \<open>The emergency timestamp\<close>

lemma switch_to_em: "last_open_time_em (state_of (switch_to now road s)) = last_open_time_em s"
proof (cases "switch_to now road s")
  case (Returned s')
  from Returned obtain s1 where
    "lock_others road (map fst (last_open_data s)) s = Returned s1" and
    "map_of (traffic_lights s') = (map_of (traffic_lights s1))(road \<mapsto> True)" and
    "last_open_data s' = AList.update road \<lparr>time = now, open_road = road\<rparr> (last_open_data s)" and
    "road_data s' = road_data s" and
    em: "last_open_time_em s' = last_open_time_em s"
    by (rule switch_to_Returned)
  with Returned show ?thesis by simp
next
  case (Raised err s')
  with switch_to_Raised(1) [OF Raised] show ?thesis unfolding only_locked_def by simp
qed

lemma update_traffic_with_lock_em:
  "last_open_time_em (state_of (update_traffic_with_lock now s road em)) = last_open_time_em s \<or>
   (em \<and> last_open_time_em (state_of (update_traffic_with_lock now s road em)) = now) \<or>
   (\<not> em \<and> now - last_open_time_em s \<ge> 10)"
proof (cases em)
  case True
  have "last_open_time_em (state_of (update_traffic_with_lock now s road True)) = last_open_time_em s \<or>
        last_open_time_em (state_of (update_traffic_with_lock now s road True)) = now"
    using switch_to_em [of now road s] unfolding update_traffic_with_lock_emergency
    by (cases "switch_to now road s") (auto simp: set_entry_def split: option.splits)
  with True show ?thesis by simp
next
  case False
  have "last_open_time_em (state_of (update_traffic_with_lock now s road False)) = last_open_time_em s \<or>
        now - last_open_time_em s \<ge> 10"
    using switch_to_em [of now road s] unfolding update_traffic_with_lock_density
    by (cases "switch_to now road s") (auto simp: set_entry_def)
  with False show ?thesis by simp
qed

lemma cooldown_update_traffic_with_lock:
  assumes "T \<le> last_open_time_em s" and "T \<le> now" and "now - T < 10"
  shows "T \<le> last_open_time_em (state_of (update_traffic_with_lock now s road em))"
  using update_traffic_with_lock_em [of now s road em] assms by auto

lemma cooldown_process_and_update_traffic:
  assumes k: "T \<le> last_open_time_em s" and t: "T \<le> now" "now - T < 10"
  shows "T \<le> last_open_time_em (state_of (process_and_update_traffic now rd s))"
proof -
  let ?s = "s\<lparr>road_data := Some rd\<rparr>"
  have k': "T \<le> last_open_time_em ?s" using k by simp
  show ?thesis
  proof (cases "emergency_selected (road_counts_of rd)")
    case (Some road)
    show ?thesis
      unfolding tick_emergency [OF Some]
      by (rule cooldown_update_traffic_with_lock [OF k' t])
  next
    case None
    then have ne: "\<not> has_emergency (road_counts_of rd)" by (simp add: has_emergency_selected)
    show ?thesis
    proof (cases "density_selected rd")
      case (Some m)
      show ?thesis
        unfolding tick_density [OF ne Some]
        by (rule cooldown_update_traffic_with_lock [OF k' t])
    next
      case None
      then have "py_max snd (total_counts (road_counts_of rd)) = None"
        unfolding density_selected_def by simp
      with ne k show ?thesis
        unfolding process_and_update_traffic_def update_traffic_light_def by simp
    qed
  qed
qed

lemma check_and_open_overdue_road_em:
  "last_open_time_em (state_of (check_and_open_overdue_road now s)) = last_open_time_em s"
proof -
  have a: "check_and_open_overdue_road now s =
     (if list_ex (\<lambda>road. now - entry_time s road \<ge> 120) (map fst (last_open_data s))
      then open_overdue now s else Returned s)"
    unfolding check_and_open_overdue_road_def by (rule overdue_scan_first) simp
  have "last_open_time_em (state_of (open_overdue now s)) = last_open_time_em s"
    using open_overdue_one [of now s] switch_to_em [of now _ s] by auto
  then show ?thesis unfolding a by simp
qed

lemma cooldown_run:
  "T \<le> last_open_time_em s \<Longrightarrow>
   list_all (\<lambda>c. T \<le> call_time c \<and> call_time c - T < 10) calls \<Longrightarrow>
   T \<le> last_open_time_em (run s calls)"
proof (induction calls arbitrary: s)
  case Nil
  then show ?case by simp
next
  case (Cons c calls)
  have "T \<le> last_open_time_em (state_of (step c s))"
  proof (cases c)
    case (Tick now rd)
    with Cons.prems(2) have "T \<le> now" "now - T < 10" by simp_all
    from cooldown_process_and_update_traffic [OF Cons.prems(1) this] Tick show ?thesis by simp
  next
    case (Sweep now)
    with Cons.prems(1) show ?thesis by (simp add: check_and_open_overdue_road_em)
  qed
  with Cons.IH Cons.prems(2) show ?case by simp
qed

lemma emergency_transition_em:
  assumes c: "\<not> is_open s0 road"
    and u: "update_traffic_with_lock T s0 road True = Returned s1"
    and o: "is_open s1 road"
  shows "last_open_time_em s1 = T"
proof (cases "map_of (traffic_lights s0) road")
  case None
  with u have "s1 = set_entry T road s0" unfolding update_traffic_with_lock_emergency by simp
  with None o show ?thesis by (simp add: is_open_def set_entry_def)
next
  case (Some b)
  with c have b: "\<not> b" by (simp add: is_open_def)
  show ?thesis
  proof (cases "switch_to T road s0")
    case (Returned s')
    with Some b u have "s1 = s'\<lparr>last_open_time_em := T\<rparr>"
      unfolding update_traffic_with_lock_emergency by simp
    then show ?thesis by simp
  next
    case (Raised err s')
    with Some b u have s1: "s1 = set_entry T road s'"
      unfolding update_traffic_with_lock_emergency by simp
    have "is_open s' road" using o unfolding s1 is_open_def set_entry_def by simp
    with only_locked_is_open [OF switch_to_Raised(1) [OF Raised]] c show ?thesis by blast
  qed
qed

lemmas cooldown_example_defs = ambulance_served_def

subsection \<open>Eligible roads\<close>

lemma eligible_roads_all:
  "set ks \<subseteq> set (map fst (last_open_data s)) \<Longrightarrow>
   \<forall>k\<in>set ks. now - entry_time s k \<ge> 10 \<and> has_snapshot s k \<Longrightarrow>
   eligible_roads now s ks = Inr (filter (\<lambda>k. car_of s k > 0) ks)"
proof (induction ks)
  case Nil
  show ?case by simp
next
  case (Cons k ks)
  from Cons.prems(1) have "k \<in> set (map fst (last_open_data s))" by simp
  then have "map_of (last_open_data s) k \<noteq> None" by (rule bookkept_key)
  then obtain e where e: "map_of (last_open_data s) k = Some e" by blast
  with Cons.prems(2) have w: "now - time e \<ge> 10" unfolding entry_time_def by simp
  from Cons.prems(2) obtain rd data where rd: "road_data s = Some rd" and d: "map_of rd k = Some data"
    unfolding has_snapshot_def by (auto split: option.splits)
  have c: "car_of s k = car (fst data)" unfolding car_of_def using rd d by simp
  have ih: "eligible_roads now s ks = Inr (filter (\<lambda>k. car_of s k > 0) ks)"
    using Cons.IH Cons.prems by simp
  show ?case using e w rd d c ih by simp
qed

lemma py_max_strict:
  assumes "py_max key xs = Some m" and "r \<in> set xs"
    and "\<forall>x\<in>set xs. x \<noteq> r \<longrightarrow> key x < key r"
  shows "m = r"
proof (rule ccontr)
  assume "m \<noteq> r"
  moreover have "m \<in> set xs" by (rule py_max_Some(1) [OF assms(1)])
  ultimately have "key m < key r" using assms(3) by blast
  moreover have "key r \<le> key m" using py_max_Some(2) [OF assms(1)] assms(2) by blast
  ultimately show False by simp
qed

lemmas starvation_example_defs = congested_road2_def road1_starving_def has_snapshot_def

subsection \<open>The setters and the bookkeeping invariant\<close>

lemma bookkeeping_inv_lock_traffic:
  assumes "bookkeeping_inv s"
  shows "bookkeeping_inv (state_of (lock_traffic s road))"
proof (cases "lock_traffic s road")
  case (Raised err s')
  with lock_traffic_Raised(1) [OF Raised] assms show ?thesis by simp
next
  case (Returned s')
  have tl: "map_of (traffic_lights s') = (map_of (traffic_lights s))(road \<mapsto> False)"
    and lod: "last_open_data s' = last_open_data s"
    by (rule lock_traffic_Returned [OF Returned])+
  have "is_open s' x \<Longrightarrow> is_open s x" for x
    unfolding is_open_def tl by (simp split: if_splits)
  with assms have "bookkeeping_inv s'"
    unfolding bookkeeping_inv_iff bookkept_iff lod by blast
  with Returned show ?thesis by simp
qed

lemma bookkeeping_inv_unlock_traffic:
  assumes "bookkeeping_inv s" and "bookkept s road"
  shows "bookkeeping_inv (state_of (unlock_traffic s road))"
proof (cases "unlock_traffic s road")
  case (Raised err s')
  with unlock_traffic_Raised(1) [OF Raised] assms show ?thesis by simp
next
  case (Returned s')
  have tl: "map_of (traffic_lights s') = (map_of (traffic_lights s))(road \<mapsto> True)"
    and lod: "last_open_data s' = last_open_data s"
    by (rule unlock_traffic_Returned [OF Returned])+
  have "is_open s' x \<Longrightarrow> x = road \<or> is_open s x" for x
    unfolding is_open_def tl by (simp split: if_splits)
  with assms have "bookkeeping_inv s'"
    unfolding bookkeeping_inv_iff bookkept_iff lod by blast
  with Returned show ?thesis by simp
qed

lemma bookkeeping_inv_run_ops:
  "bookkeeping_inv s \<Longrightarrow> admissible s ops \<Longrightarrow> bookkeeping_inv (run_ops s ops)"
proof (induction ops arbitrary: s)
  case Nil
  then show ?case by simp
next
  case (Cons x ops)
  have "bookkeeping_inv (state_of (apply_op x s))"
  proof (cases x)
    case (Arbitrate c)
    with stable_step [OF stable_bookkeeping_inv Cons.prems(1)] show ?thesis by simp
  next
    case (Lock road)
    with bookkeeping_inv_lock_traffic [OF Cons.prems(1)] show ?thesis by simp
  next
    case (Unlock road)
    with Cons.prems(2) have "bookkept s road" by simp
    with bookkeeping_inv_unlock_traffic [OF Cons.prems(1)] Unlock show ?thesis by simp
  qed
  with Cons.IH Cons.prems(2) show ?case by simp
qed

lemma lock_others_configured:
  assumes "configured s"
  shows "\<exists>s1. lock_others target (map fst (last_open_data s)) s = Returned s1"
proof -
  have "\<forall>k\<in>set (map fst (last_open_data s)).
          map_of (last_open_data s) k \<noteq> None \<and> map_of (traffic_lights s) k \<noteq> None"
    using assms bookkept_key unfolding configured_def list_all_iff by blast
  then show ?thesis by (rule lock_others_total)
qed

lemmas operation_defs = bookkeeping_inv_def entries_own_key_def configured_def

lemma update_traffic_light_returns:
  "(\<exists>s'. update_traffic_light now s = Returned s') = (road_data s \<noteq> Some [])"
proof (cases "road_data s")
  case None
  then show ?thesis unfolding update_traffic_light_def by simp
next
  case (Some rd)
  show ?thesis
  proof (cases "has_emergency (road_counts_of rd)")
    case True
    then have "rd \<noteq> []" unfolding has_emergency_def road_counts_of_def by auto
    with Some True emergency_scan_returns [of now s "road_counts_of rd"] show ?thesis
      unfolding update_traffic_light_def by simp
  next
    case False
    show ?thesis
    proof (cases "py_max snd (total_counts (road_counts_of rd))")
      case None
      then have "rd = []"
        unfolding py_max_None total_counts_def road_counts_of_def by simp
      with Some False None show ?thesis unfolding update_traffic_light_def by simp
    next
      case (Some m)
      then have "rd \<noteq> []"
        unfolding py_max_def total_counts_def road_counts_of_def by auto
      with \<open>road_data s = Some rd\<close> False Some
        density_loop_returns [of now "fst m" s "map fst rd"] show ?thesis
        unfolding update_traffic_light_def by simp
    qed
  qed
qed

subsection \<open>The comprehension and the eligible set\<close>

lemma map_of_bookkept: "map_of (last_open_data s) k = Some e \<Longrightarrow> bookkept s k"
  unfolding bookkept_iff by simp

lemma eligible_roads_Inr:
  "eligible_roads now s ks = Inr rs \<Longrightarrow> rs = filter (eligible_for_sweep now s) ks"
proof (induction ks arbitrary: rs)
  case Nil
  then show ?case by simp
next
  case (Cons k ks)
  from Cons.prems obtain e where e: "map_of (last_open_data s) k = Some e"
    by (cases "map_of (last_open_data s) k") auto
  have t: "entry_time s k = time e" unfolding entry_time_def using e by simp
  have b: "bookkept s k" by (rule map_of_bookkept [OF e])
  show ?case
  proof (cases "now - time e \<ge> 10")
    case False
    with e Cons.prems have r: "eligible_roads now s ks = Inr rs" by simp
    have "\<not> eligible_for_sweep now s k"
      unfolding eligible_for_sweep_def t using False by simp
    with Cons.IH [OF r] show ?thesis by simp
  next
    case True
    from True e Cons.prems obtain rd where rd: "road_data s = Some rd"
      by (cases "road_data s") auto
    from True e rd Cons.prems obtain data where d: "map_of rd k = Some data"
      by (cases "map_of rd k") auto
    from True e rd d Cons.prems obtain rs0 where
      r0: "eligible_roads now s ks = Inr rs0" and
      rs: "rs = (if car (fst data) > 0 then k # rs0 else rs0)"
      by (cases "eligible_roads now s ks") auto
    have el: "eligible_for_sweep now s k = (car (fst data) > 0)"
      unfolding eligible_for_sweep_def t using b True rd d by simp
    from Cons.IH [OF r0] rs el show ?thesis by simp
  qed
qed

lemma eligible_roads_total:
  "\<forall>k\<in>set ks. bookkept s k \<and> (now - entry_time s k \<ge> 10 \<longrightarrow> has_snapshot s k) \<Longrightarrow>
   \<exists>rs. eligible_roads now s ks = Inr rs"
proof (induction ks)
  case Nil
  show ?case by simp
next
  case (Cons k ks)
  from Cons.prems have "map_of (last_open_data s) k \<noteq> None" unfolding bookkept_iff by simp
  then obtain e where e: "map_of (last_open_data s) k = Some e" by blast
  have t: "entry_time s k = time e" unfolding entry_time_def using e by simp
  from Cons.IH Cons.prems obtain rs0 where r0: "eligible_roads now s ks = Inr rs0" by auto
  show ?case
  proof (cases "now - time e \<ge> 10")
    case False
    with e r0 show ?thesis by simp
  next
    case True
    with Cons.prems t have "has_snapshot s k" by simp
    then obtain rd data where "road_data s = Some rd" and "map_of rd k = Some data"
      unfolding has_snapshot_def by (auto split: option.splits)
    with True e r0 show ?thesis by simp
  qed
qed

lemma open_overdue_unchanged:
  assumes "\<not> list_ex (eligible_for_sweep now s) (map fst (last_open_data s))"
  shows "state_of (open_overdue now s) = s"
proof (cases "eligible_roads now s (map fst (last_open_data s))")
  case (Inl err)
  then show ?thesis unfolding open_overdue_def by simp
next
  case (Inr rs)
  have "rs = filter (eligible_for_sweep now s) (map fst (last_open_data s))"
    by (rule eligible_roads_Inr [OF Inr])
  with assms have "rs = []" unfolding list_ex_iff by (simp add: filter_empty_conv)
  with Inr show ?thesis unfolding open_overdue_def by simp
qed

lemma open_overdue_Returned_unchanged:
  assumes "\<not> list_ex (eligible_for_sweep now s) (map fst (last_open_data s))"
    and "list_all (\<lambda>k. now - entry_time s k \<ge> 10 \<longrightarrow> has_snapshot s k)
           (map fst (last_open_data s))"
  shows "open_overdue now s = Returned s"
proof -
  have "\<forall>k\<in>set (map fst (last_open_data s)).
          bookkept s k \<and> (now - entry_time s k \<ge> 10 \<longrightarrow> has_snapshot s k)"
    using assms(2) unfolding list_all_iff bookkept_def by simp
  from eligible_roads_total [OF this] obtain rs where
    r: "eligible_roads now s (map fst (last_open_data s)) = Inr rs" by blast
  have "rs = filter (eligible_for_sweep now s) (map fst (last_open_data s))"
    by (rule eligible_roads_Inr [OF r])
  with assms(1) have "rs = []" unfolding list_ex_iff by (simp add: filter_empty_conv)
  with r show ?thesis unfolding open_overdue_def by simp
qed

lemmas overdue_example_defs = three_roads_def road1_leads_def road2_leads_def road3_leads_def
  overdue_without_cars_def eligible_for_sweep_def has_snapshot_def

section \<open>Claims\<close>

text \<open>
  C1. From the initial state, after any run of \<open>tick\<close> and \<open>sweep\<close> calls (completed or
  left through an exception), a call of \<open>process_and_update_traffic\<close>, of
  \<open>update_traffic_light\<close> or of \<open>check_and_open_overdue_road\<close> that returns leaves at
  most one road open.
\<close>

theorem mutual_exclusion:
  assumes "s = run (init roads) calls"
    and "process_and_update_traffic now rd s = Returned s' \<or>
         update_traffic_light now s = Returned s' \<or>
         check_and_open_overdue_road now s = Returned s'"
  shows "at_most_one_open s'"
proof -
  have inv: "mutex_inv s"
    unfolding assms(1) by (rule stable_run [OF stable_mutex_inv mutex_inv_init])
  from assms(2) consider
    (tick) "process_and_update_traffic now rd s = Returned s'" |
    (light) "update_traffic_light now s = Returned s'" |
    (sweep) "check_and_open_overdue_road now s = Returned s'" by blast
  then have "mutex_inv s'"
  proof cases
    case tick
    with stable_process_and_update_traffic [OF stable_mutex_inv inv, of now rd]
    show ?thesis by simp
  next
    case light
    with stable_update_traffic_light [OF stable_mutex_inv inv, of now]
    show ?thesis by simp
  next
    case sweep
    with stable_check_and_open_overdue_road [OF stable_mutex_inv inv, of now]
    show ?thesis by simp
  qed
  then show ?thesis unfolding mutex_inv_def by simp
qed

theorem mutual_exclusion_witness:
  "process_and_update_traffic 1001 road2_busy (run (init two_roads) [Tick 1000 road1_busy])
     = Returned road2_opened \<and>
   at_most_one_open road2_opened"
proof -
  have h: "process_and_update_traffic 1001 road2_busy
             (run (init two_roads) [Tick 1000 road1_busy]) = Returned road2_opened"
    by (simp add: example_defs eval_defs)
  show ?thesis
    using h mutual_exclusion [OF refl disjI1, OF h] by simp
qed

text \<open>
  C2. The code at the claim's input: three roads, all closed, with a police car on Road1, a
  fire engine on Road2 and an ambulance on Road3. The scan stops at Road1, the first road
  that carries any emergency vehicle, and opens it; the road with the ambulance stays closed.
\<close>

theorem emergency_scan_opens_first_match:
  "process_and_update_traffic 1000 police_first (init three_roads) =
     Returned
       \<lparr>road_data = Some police_first,
        traffic_lights = [(''Road1'', True), (''Road2'', False), (''Road3'', False)],
        last_open_data = [(''Road1'', \<lparr>time = 1000, open_road = ''Road1''\<rparr>)],
        last_open_time_em = 1000\<rparr>"
  by (simp add: more_example_defs eval_defs)

text \<open>
  C3, as stated, fails: Road1 goes from closed to open at 1000 by a density tick; a density
  tick at 1001 selects Road2, which has no entry, and closes Road1 one unit after it opened.
\<close>

theorem minimum_green_counterexample:
  "\<not> is_open (init two_roads) ''Road1'' \<and>
   process_and_update_traffic 1000 road1_busy (init two_roads) = Returned road1_opened \<and>
   is_open road1_opened ''Road1'' \<and>
   \<not> has_emergency (road_counts_of road2_busy) \<and>
   process_and_update_traffic 1001 road2_busy road1_opened = Returned road2_opened \<and>
   \<not> is_open road2_opened ''Road1'' \<and>
   \<not> (1001 - 1000 \<ge> (10::real))"
  by (simp add: example_defs eval_defs)

text \<open>
  C3, amended: whenever a tick without emergency closes an open road \<open>r\<close> at time \<open>now\<close>,
  the road it selected is another road, was closed, its own bookkeeping time (0 when it has
  no entry) is at least 10 units old, and at least 10 units have passed since
  \<open>last_open_time_em\<close>. The age of \<open>r\<close>'s own opening is not looked at.
\<close>

theorem density_switch_guard:
  assumes "\<not> has_emergency (road_counts_of rd)"
    and "process_and_update_traffic now rd s = Returned s'"
    and "is_open s r" and "\<not> is_open s' r"
  shows "\<exists>m. density_selected rd = Some m \<and> m \<noteq> r \<and>
             map_of (traffic_lights s) m = Some False \<and>
             now - entry_time s m \<ge> 10 \<and> now - last_open_time_em s \<ge> 10"
proof (cases "density_selected rd")
  case None
  then have "py_max snd (total_counts (road_counts_of rd)) = None"
    unfolding density_selected_def by simp
  with assms(1,2) show ?thesis
    unfolding process_and_update_traffic_def update_traffic_light_def by simp
next
  case (Some m)
  let ?s = "s\<lparr>road_data := Some rd\<rparr>"
  have u: "update_traffic_with_lock now ?s m False = Returned s'"
    using assms(2) unfolding tick_density [OF assms(1) Some] .
  have cond: "map_of (traffic_lights s) m = Some False \<and> now - entry_time s m \<ge> 10 \<and>
      now - last_open_time_em s \<ge> 10"
  proof (rule ccontr)
    assume n: "\<not> ?thesis"
    then have "\<not> (map_of (traffic_lights ?s) m = Some False \<and> now - entry_time ?s m \<ge> 10 \<and>
      now - last_open_time_em ?s \<ge> 10)" by (simp add: entry_time_def)
    then have "update_traffic_with_lock now ?s m False = Returned ?s"
      unfolding update_traffic_with_lock_density by (rule if_not_P)
    with u have "s' = ?s" by simp
    with assms(3,4) show False by (simp add: is_open_def)
  qed
  moreover have "m \<noteq> r" using cond assms(3) by (auto simp: is_open_def)
  ultimately show ?thesis using Some by blast
qed

theorem density_switch_guard_witness:
  "\<not> has_emergency (road_counts_of road2_busy) \<and>
   process_and_update_traffic 1001 road2_busy road1_opened = Returned road2_opened \<and>
   is_open road1_opened ''Road1'' \<and> \<not> is_open road2_opened ''Road1'' \<and>
   (\<exists>m. density_selected road2_busy = Some m \<and> m \<noteq> ''Road1'' \<and>
        map_of (traffic_lights road1_opened) m = Some False \<and>
        1001 - entry_time road1_opened m \<ge> 10 \<and> 1001 - last_open_time_em road1_opened \<ge> 10)"
proof -
  have a: "\<not> has_emergency (road_counts_of road2_busy)"
    by (simp add: example_defs eval_defs)
  have b: "process_and_update_traffic 1001 road2_busy road1_opened = Returned road2_opened"
    by (simp add: example_defs eval_defs)
  have c: "is_open road1_opened ''Road1''" by (simp add: example_defs eval_defs)
  have d: "\<not> is_open road2_opened ''Road1''" by (simp add: example_defs eval_defs)
  show ?thesis
    using a b c d density_switch_guard [OF a b c d] by simp
qed

text \<open>
  C4, as stated, fails: on the initial state the density branch selects Road1, which has no
  bookkeeping entry, and the same call opens it.
\<close>

theorem missing_entry_counterexample:
  "\<not> has_emergency (road_counts_of road1_busy) \<and>
   density_selected road1_busy = Some ''Road1'' \<and>
   \<not> bookkept (init two_roads) ''Road1'' \<and>
   \<not> is_open (init two_roads) ''Road1'' \<and>
   is_open (state_of (process_and_update_traffic 1000 road1_busy (init two_roads))) ''Road1''"
  by (simp add: example_defs eval_defs select_defs)

text \<open>
  C4, amended: in a state reached by ticks and sweeps over configured roads, a tick whose
  density branch selects a road without bookkeeping entry always returns. The missing
  entry is read as timestamp 0: when the road is closed, \<open>now\<close> is at least 10 and the
  emergency cooldown has passed, the call opens the road, leaves every other road closed,
  writes the entry with the current timestamp and clears \<open>last_open_time_em\<close>; otherwise
  it writes no entry and changes nothing but the snapshot cache.
\<close>

theorem missing_entry_read_as_zero:
  assumes "list_all (snapshot_within roads) calls" and "s = run (init roads) calls"
    and "\<not> has_emergency (road_counts_of rd)" and "density_selected rd = Some road"
    and "\<not> bookkept s road"
  shows "\<exists>s'. process_and_update_traffic now rd s = Returned s' \<and>
           (if map_of (traffic_lights s) road = Some False \<and> now \<ge> 10 \<and>
               now - last_open_time_em s \<ge> 10
            then is_open s' road \<and> (\<forall>x. x \<noteq> road \<longrightarrow> \<not> is_open s' x) \<and>
                 map_of (last_open_data s') road = Some \<lparr>time = now, open_road = road\<rparr> \<and>
                 last_open_time_em s' = 0
            else s' = s\<lparr>road_data := Some rd\<rparr>)"
proof -
  let ?s = "s\<lparr>road_data := Some rd\<rparr>"
  have inv: "bookkeeping_inv ?s"
    using reachable_state(1) [OF assms(1)] stable_dest(4) [OF stable_bookkeeping_inv]
    unfolding assms(2) by blast
  have conf: "configured ?s"
    using reachable_state(2) [OF assms(1)] unfolding assms(2) configured_def by simp
  have t0: "entry_time ?s road = 0"
    using assms(5) unfolding entry_time_def bookkept_iff by simp
  have tick: "process_and_update_traffic now rd s = update_traffic_with_lock now ?s road False"
    by (rule tick_density [OF assms(3,4)])
  let ?C = "map_of (traffic_lights s) road = Some False \<and> now \<ge> 10 \<and>
               now - last_open_time_em s \<ge> 10"
  show ?thesis
  proof (cases ?C)
    case False
    then have "\<not> (map_of (traffic_lights ?s) road = Some False \<and> now - entry_time ?s road \<ge> 10 \<and>
         now - last_open_time_em ?s \<ge> 10)" using t0 by simp
    then have "update_traffic_with_lock now ?s road False = Returned ?s"
      unfolding update_traffic_with_lock_density by (rule if_not_P)
    with tick have r: "process_and_update_traffic now rd s = Returned ?s" by simp
    show ?thesis
    proof (intro exI conjI)
      show "process_and_update_traffic now rd s = Returned ?s" by (rule r)
      show "if ?C
            then is_open ?s road \<and> (\<forall>x. x \<noteq> road \<longrightarrow> \<not> is_open ?s x) \<and>
                 map_of (last_open_data ?s) road = Some \<lparr>time = now, open_road = road\<rparr> \<and>
                 last_open_time_em ?s = 0
            else ?s = s\<lparr>road_data := Some rd\<rparr>"
        unfolding if_not_P [OF False] by (rule refl)
    qed
  next
    case True
    then have c: "map_of (traffic_lights ?s) road = Some False \<and> now - entry_time ?s road \<ge> 10 \<and>
         now - last_open_time_em ?s \<ge> 10" using t0 by simp
    have "map_of (traffic_lights ?s) road \<noteq> None" using True by simp
    from switch_to_total [OF conf this] obtain s1 where sw: "switch_to now road ?s = Returned s1"
      by blast
    let ?s' = "s1\<lparr>last_open_time_em := 0\<rparr>"
    have "update_traffic_with_lock now ?s road False =
        (case switch_to now road ?s of
              Returned s1 \<Rightarrow> Returned (s1\<lparr>last_open_time_em := 0\<rparr>)
            | Raised err s1 \<Rightarrow> Returned (set_entry now road s1))"
      unfolding update_traffic_with_lock_density by (rule if_P [OF c])
    then have u: "update_traffic_with_lock now ?s road False = Returned ?s'"
      using sw by simp
    have o: "is_open s1 road" and cl: "\<forall>x. x \<noteq> road \<longrightarrow> \<not> is_open s1 x"
      using switch_to_Returned_open(2,3) [OF inv sw] by simp_all
    from sw obtain s0 where
      "lock_others road (map fst (last_open_data ?s)) ?s = Returned s0" and
      "map_of (traffic_lights s1) = (map_of (traffic_lights s0))(road \<mapsto> True)" and
      lod: "last_open_data s1 =
              AList.update road \<lparr>time = now, open_road = road\<rparr> (last_open_data ?s)"
      by (rule switch_to_Returned)
    have e: "map_of (last_open_data s1) road = Some \<lparr>time = now, open_road = road\<rparr>"
      unfolding lod by (simp add: update_conv')
    have fin: "is_open ?s' road \<and> (\<forall>x. x \<noteq> road \<longrightarrow> \<not> is_open ?s' x) \<and>
          map_of (last_open_data ?s') road = Some \<lparr>time = now, open_road = road\<rparr> \<and>
          last_open_time_em ?s' = 0"
      using o cl e unfolding is_open_def by simp
    show ?thesis
    proof (intro exI conjI)
      show "process_and_update_traffic now rd s = Returned ?s'" using tick u by simp
      show "if ?C
            then is_open ?s' road \<and> (\<forall>x. x \<noteq> road \<longrightarrow> \<not> is_open ?s' x) \<and>
                 map_of (last_open_data ?s') road = Some \<lparr>time = now, open_road = road\<rparr> \<and>
                 last_open_time_em ?s' = 0
            else ?s' = s\<lparr>road_data := Some rd\<rparr>"
        unfolding if_P [OF True] by (rule fin)
    qed
  qed
qed

theorem missing_entry_read_as_zero_witness:
  "list_all (snapshot_within two_roads) [] \<and>
   \<not> has_emergency (road_counts_of road1_busy) \<and>
   density_selected road1_busy = Some ''Road1'' \<and>
   \<not> bookkept (run (init two_roads) []) ''Road1'' \<and>
   process_and_update_traffic 1000 road1_busy (run (init two_roads) []) = Returned road1_opened \<and>
   is_open road1_opened ''Road1'' \<and> \<not> is_open road1_opened ''Road2'' \<and>
   map_of (last_open_data road1_opened) ''Road1'' = Some \<lparr>time = 1000, open_road = ''Road1''\<rparr> \<and>
   last_open_time_em road1_opened = 0"
proof -
  have a: "list_all (snapshot_within two_roads) []" by simp
  have c: "\<not> has_emergency (road_counts_of road1_busy)"
    by (simp add: example_defs eval_defs)
  have d: "density_selected road1_busy = Some ''Road1''"
    by (simp add: example_defs eval_defs select_defs)
  have e: "\<not> bookkept (run (init two_roads) []) ''Road1''"
    by (simp add: example_defs eval_defs)
  have g: "map_of (traffic_lights (run (init two_roads) [])) ''Road1'' = Some False \<and>
      (1000::real) \<ge> 10 \<and> 1000 - last_open_time_em (run (init two_roads) []) \<ge> 10"
    by (simp add: example_defs eval_defs)
  have t: "process_and_update_traffic 1000 road1_busy (run (init two_roads) []) =
      Returned road1_opened"
    by (simp add: example_defs eval_defs)
  from missing_entry_read_as_zero [OF a refl c d e, of 1000] g t
  have "is_open road1_opened ''Road1'' \<and> (\<forall>x. x \<noteq> ''Road1'' \<longrightarrow> \<not> is_open road1_opened x) \<and>
      map_of (last_open_data road1_opened) ''Road1'' = Some \<lparr>time = 1000, open_road = ''Road1''\<rparr> \<and>
      last_open_time_em road1_opened = 0"
    by (simp only: if_True simp_thms outcome.inject ex_simps) auto
  with a c d e t show ?thesis by simp
qed




text \<open>
  C6, as stated, fails: Road1 is closed, bookkept since 1000 and has one car; Road2 is open,
  bookkept since 1115 and has five cars. The sweep at 1130 finds Road1 overdue, picks Road2,
  which has the most cars among the eligible roads, and Road1 stays closed.
\<close>

theorem starvation_override_counterexample:
  "run (init two_roads) [Tick 1000 road1_busy, Tick 1115 road2_busy] = road1_starving \<and>
   bookkept road1_starving ''Road1'' \<and>
   1130 - entry_time road1_starving ''Road1'' \<ge> 120 \<and>
   car_of road1_starving ''Road1'' > 0 \<and>
   map fst (last_open_data road1_starving) = [''Road1'', ''Road2''] \<and>
   1130 - entry_time road1_starving ''Road2'' \<ge> 10 \<and>
   (\<exists>s'. check_and_open_overdue_road 1130 road1_starving = Returned s' \<and>
         \<not> is_open s' ''Road1'' \<and> is_open s' ''Road2'')"
  by (simp add: example_defs starvation_example_defs eval_defs)

text \<open>
  C6, amended: in a state reached by ticks and sweeps over configured roads in which every
  bookkept road has a snapshot, let road \<open>r\<close> have an entry at least 120 units old and
  \<open>car > 0\<close>, and every other bookkept road an entry at least 10 units old. Then the sweep
  returns and opens the bookkept road with the greatest car count among those with
  \<open>car > 0\<close> (the first such in bookkeeping order), closes every other road and sets that
  road's entry time to \<open>now\<close>. It is \<open>r\<close> when every other bookkept road has fewer cars than
  \<open>r\<close>; the demand scores are not looked at.
\<close>

theorem starvation_override:
  assumes "list_all (snapshot_within roads) calls" and "s = run (init roads) calls"
    and "bookkept s r" and "now - entry_time s r \<ge> 120" and "car_of s r > 0"
    and "list_all (\<lambda>k. k \<noteq> r \<longrightarrow> now - entry_time s k \<ge> 10) (map fst (last_open_data s))"
    and "list_all (has_snapshot s) (map fst (last_open_data s))"
  shows "\<exists>s' m. check_and_open_overdue_road now s = Returned s' \<and>
           py_max (car_of s) (filter (\<lambda>k. car_of s k > 0) (map fst (last_open_data s))) = Some m \<and>
           is_open s' m \<and> (\<forall>x. x \<noteq> m \<longrightarrow> \<not> is_open s' x) \<and> entry_time s' m = now \<and>
           (list_all (\<lambda>k. k \<noteq> r \<longrightarrow> car_of s k < car_of s r) (map fst (last_open_data s))
              \<longrightarrow> m = r)"
proof -
  let ?ks = "map fst (last_open_data s)"
  let ?el = "filter (\<lambda>k. car_of s k > 0) ?ks"
  have inv: "bookkeeping_inv s" and conf: "configured s"
    unfolding assms(2) by (rule reachable_state [OF assms(1)])+
  have r: "r \<in> set ?ks" using assms(3) unfolding bookkept_def .
  have wait: "\<forall>k\<in>set ?ks. now - entry_time s k \<ge> 10 \<and> has_snapshot s k"
  proof
    fix k assume k: "k \<in> set ?ks"
    have "now - entry_time s k \<ge> 10"
    proof (cases "k = r")
      case True
      with assms(4) show ?thesis by simp
    next
      case False
      with assms(6) k show ?thesis unfolding list_all_iff by blast
    qed
    moreover have "has_snapshot s k" using assms(7) k unfolding list_all_iff by blast
    ultimately show "now - entry_time s k \<ge> 10 \<and> has_snapshot s k" by simp
  qed
  have el: "eligible_roads now s ?ks = Inr ?el"
    by (rule eligible_roads_all [OF subset_refl wait])
  have rel: "r \<in> set ?el" using r assms(5) by simp
  then have ne: "?el \<noteq> []" by (metis empty_iff empty_set)
  then obtain m where m: "py_max (car_of s) ?el = Some m"
    using py_max_None [of "car_of s" ?el] by auto
  have od: "list_ex (\<lambda>road. now - entry_time s road \<ge> 120) ?ks"
    unfolding list_ex_iff using r assms(4) by blast
  have sweep: "check_and_open_overdue_road now s = switch_to now m s"
    unfolding check_and_open_overdue_road_def overdue_scan_first [OF subset_refl]
      open_overdue_def using od el ne m by simp
  have "m \<in> set ?el" by (rule py_max_Some(1) [OF m])
  then have "m \<in> set ?ks" by simp
  then have "map_of (traffic_lights s) m \<noteq> None"
    using conf unfolding configured_def list_all_iff by blast
  from switch_to_total [OF conf this] obtain s' where sw: "switch_to now m s = Returned s'"
    by blast
  have strict: "list_all (\<lambda>k. k \<noteq> r \<longrightarrow> car_of s k < car_of s r) ?ks \<longrightarrow> m = r"
  proof
    assume "list_all (\<lambda>k. k \<noteq> r \<longrightarrow> car_of s k < car_of s r) ?ks"
    then have "\<forall>x\<in>set ?el. x \<noteq> r \<longrightarrow> car_of s x < car_of s r"
      unfolding list_all_iff by auto
    with m rel show "m = r" by (rule py_max_strict)
  qed
  show ?thesis
  proof (intro exI conjI)
    show "check_and_open_overdue_road now s = Returned s'" using sweep sw by simp
    show "py_max (car_of s) ?el = Some m" by (rule m)
    show "is_open s' m" by (rule switch_to_Returned_open(2) [OF inv sw])
    show "\<forall>x. x \<noteq> m \<longrightarrow> \<not> is_open s' x" by (rule switch_to_Returned_open(3) [OF inv sw])
    show "entry_time s' m = now" by (rule switch_to_Returned_light(2) [OF sw])
    show "list_all (\<lambda>k. k \<noteq> r \<longrightarrow> car_of s k < car_of s r) ?ks \<longrightarrow> m = r" by (rule strict)
  qed
qed

theorem starvation_override_witness:
  "list_all (snapshot_within two_roads)
     [Tick 1000 road1_busy, Tick 1115 road2_busy, Tick 1120 congested_road2] \<and>
   run (init two_roads) [Tick 1000 road1_busy, Tick 1115 road2_busy, Tick 1120 congested_road2]
     = road1_starving\<lparr>road_data := Some congested_road2\<rparr> \<and>
   density_selected congested_road2 = Some ''Road2'' \<and>
   check_and_open_overdue_road 1130 (road1_starving\<lparr>road_data := Some congested_road2\<rparr>) =
     Returned road1_relieved \<and>
   is_open road1_relieved ''Road1'' \<and> \<not> is_open road1_relieved ''Road2'' \<and>
   entry_time road1_relieved ''Road1'' = 1130"
proof -
  let ?s = "road1_starving\<lparr>road_data := Some congested_road2\<rparr>"
  have a: "list_all (snapshot_within two_roads)
     [Tick 1000 road1_busy, Tick 1115 road2_busy, Tick 1120 congested_road2]"
    by (simp add: example_defs starvation_example_defs)
  have b: "?s = run (init two_roads)
     [Tick 1000 road1_busy, Tick 1115 road2_busy, Tick 1120 congested_road2]"
    by (simp add: example_defs starvation_example_defs eval_defs)
  have c: "bookkept ?s ''Road1''" by (simp add: starvation_example_defs eval_defs)
  have d: "1130 - entry_time ?s ''Road1'' \<ge> 120" by (simp add: starvation_example_defs eval_defs)
  have e: "car_of ?s ''Road1'' > 0" by (simp add: starvation_example_defs eval_defs)
  have f: "list_all (\<lambda>k. k \<noteq> ''Road1'' \<longrightarrow> 1130 - entry_time ?s k \<ge> 10)
             (map fst (last_open_data ?s))"
    by (simp add: starvation_example_defs eval_defs)
  have g: "list_all (has_snapshot ?s) (map fst (last_open_data ?s))"
    by (simp add: starvation_example_defs eval_defs)
  have h: "list_all (\<lambda>k. k \<noteq> ''Road1'' \<longrightarrow> car_of ?s k < car_of ?s ''Road1'')
             (map fst (last_open_data ?s))"
    by (simp add: starvation_example_defs eval_defs)
  have i: "density_selected congested_road2 = Some ''Road2''"
    by (simp add: starvation_example_defs eval_defs select_defs)
  have t: "check_and_open_overdue_road 1130 ?s = Returned road1_relieved"
    by (simp add: starvation_example_defs road1_relieved_def eval_defs)
  from starvation_override [OF a b c d e f g] h obtain s' where
    "check_and_open_overdue_road 1130 ?s = Returned s'" and
    "is_open s' ''Road1''" and "\<forall>x. x \<noteq> ''Road1'' \<longrightarrow> \<not> is_open s' x" and
    "entry_time s' ''Road1'' = 1130" by blast
  with t have "is_open road1_relieved ''Road1''" and "\<not> is_open road1_relieved ''Road2''"
    and "entry_time road1_relieved ''Road1'' = 1130" by auto
  with a b i t show ?thesis by simp
qed

text \<open>
  C7. A sweep runs the body of the overdue test once when some bookkept road is at least
  120 units old, whatever the number of such roads, and not at all otherwise; so it
  either switches to one road or leaves the object as it is. The list the body builds is
  the eligible set of the specification (bookkept roads with wait at least 10 and
  \<open>car > 0\<close>), in bookkeeping order. When no bookkept road is eligible, the sweep applies no
  transition, also when the 120-unit threshold is crossed: it leaves the state as it is,
  and it returns when every bookkept road that has waited 10 units has a snapshot.
\<close>

theorem sweep_processes_at_most_one:
  "check_and_open_overdue_road now s =
     (if list_ex (\<lambda>road. now - entry_time s road \<ge> 120) (map fst (last_open_data s))
      then open_overdue now s else Returned s) \<and>
   ((\<exists>road. check_and_open_overdue_road now s = switch_to now road s) \<or>
    state_of (check_and_open_overdue_road now s) = s) \<and>
   (\<forall>rs. eligible_roads now s (map fst (last_open_data s)) = Inr rs \<longrightarrow>
         rs = filter (eligible_for_sweep now s) (map fst (last_open_data s))) \<and>
   (\<not> list_ex (eligible_for_sweep now s) (map fst (last_open_data s)) \<longrightarrow>
      state_of (check_and_open_overdue_road now s) = s \<and>
      (list_all (\<lambda>k. now - entry_time s k \<ge> 10 \<longrightarrow> has_snapshot s k)
         (map fst (last_open_data s)) \<longrightarrow>
       check_and_open_overdue_road now s = Returned s))"
proof -
  have a: "check_and_open_overdue_road now s =
     (if list_ex (\<lambda>road. now - entry_time s road \<ge> 120) (map fst (last_open_data s))
      then open_overdue now s else Returned s)"
    unfolding check_and_open_overdue_road_def by (rule overdue_scan_first) simp
  have b: "(\<exists>road. check_and_open_overdue_road now s = switch_to now road s) \<or>
    state_of (check_and_open_overdue_road now s) = s"
    using open_overdue_one [of now s] unfolding a by auto
  have c: "\<forall>rs. eligible_roads now s (map fst (last_open_data s)) = Inr rs \<longrightarrow>
         rs = filter (eligible_for_sweep now s) (map fst (last_open_data s))"
    using eligible_roads_Inr by blast
  have d: "\<not> list_ex (eligible_for_sweep now s) (map fst (last_open_data s)) \<longrightarrow>
      state_of (check_and_open_overdue_road now s) = s \<and>
      (list_all (\<lambda>k. now - entry_time s k \<ge> 10 \<longrightarrow> has_snapshot s k)
         (map fst (last_open_data s)) \<longrightarrow>
       check_and_open_overdue_road now s = Returned s)"
  proof (intro impI conjI)
    assume n: "\<not> list_ex (eligible_for_sweep now s) (map fst (last_open_data s))"
    show "state_of (check_and_open_overdue_road now s) = s"
      unfolding a using open_overdue_unchanged [OF n] by simp
    assume h: "list_all (\<lambda>k. now - entry_time s k \<ge> 10 \<longrightarrow> has_snapshot s k)
         (map fst (last_open_data s))"
    show "check_and_open_overdue_road now s = Returned s"
      unfolding a using open_overdue_Returned_unchanged [OF n h] by simp
  qed
  from a b c d show ?thesis by blast
qed

theorem sweep_processes_at_most_one_witness:
  "run (init three_roads) [Tick 1000 road1_leads, Tick 1125 road2_leads, Tick 1127 road3_leads]
     = overdue_without_cars \<and>
   list_ex (\<lambda>road. 1130 - entry_time overdue_without_cars road \<ge> 120)
     (map fst (last_open_data overdue_without_cars)) \<and>
   \<not> list_ex (eligible_for_sweep 1130 overdue_without_cars)
       (map fst (last_open_data overdue_without_cars)) \<and>
   list_all (has_snapshot overdue_without_cars) (map fst (last_open_data overdue_without_cars)) \<and>
   eligible_roads 1130 overdue_without_cars (map fst (last_open_data overdue_without_cars)) = Inr [] \<and>
   check_and_open_overdue_road 1130 overdue_without_cars = Returned overdue_without_cars"
proof -
  let ?s = overdue_without_cars
  have r: "run (init three_roads)
             [Tick 1000 road1_leads, Tick 1125 road2_leads, Tick 1127 road3_leads] = ?s"
    by (simp add: overdue_example_defs eval_defs)
  have o: "list_ex (\<lambda>road. 1130 - entry_time ?s road \<ge> 120) (map fst (last_open_data ?s))"
    by (simp add: overdue_example_defs eval_defs)
  have n: "\<not> list_ex (eligible_for_sweep 1130 ?s) (map fst (last_open_data ?s))"
    by (simp add: overdue_example_defs eval_defs)
  have h: "list_all (has_snapshot ?s) (map fst (last_open_data ?s))"
    by (simp add: overdue_example_defs eval_defs)
  then have h': "list_all (\<lambda>k. 1130 - entry_time ?s k \<ge> 10 \<longrightarrow> has_snapshot ?s k)
      (map fst (last_open_data ?s))" unfolding list_all_iff by blast
  have e: "eligible_roads 1130 ?s (map fst (last_open_data ?s)) = Inr []"
    by (simp add: overdue_example_defs eval_defs)
  from sweep_processes_at_most_one [of 1130 ?s] n h'
  have "check_and_open_overdue_road 1130 ?s = Returned ?s" by blast
  with r o n h e show ?thesis by simp
qed

text \<open>
  C8. Let an emergency call of \<open>update_traffic_with_lock\<close> at time \<open>T\<close> turn a closed road
  open. It sets \<open>last_open_time_em\<close> to \<open>T\<close>; and after any further ticks and sweeps at
  times in \<open>[T, T + 10)\<close>, a tick without emergency at a time \<open>t\<close> with \<open>t - T < 10\<close>
  applies no transition: lights, bookkeeping and \<open>last_open_time_em\<close> stay as they are.
\<close>

theorem post_emergency_cooldown:
  assumes "\<not> is_open s0 road"
    and "update_traffic_with_lock T s0 road True = Returned s1"
    and "is_open s1 road"
    and "list_all (\<lambda>c. T \<le> call_time c \<and> call_time c - T < 10) calls"
    and "s = run s1 calls"
    and "t - T < 10"
    and "\<not> has_emergency (road_counts_of rd)"
  shows "last_open_time_em s1 = T \<and>
         state_of (process_and_update_traffic t rd s) = s\<lparr>road_data := Some rd\<rparr>"
proof -
  let ?s = "s\<lparr>road_data := Some rd\<rparr>"
  have em: "last_open_time_em s1 = T" by (rule emergency_transition_em [OF assms(1-3)])
  then have "T \<le> last_open_time_em s1" by simp
  then have "T \<le> last_open_time_em s"
    unfolding assms(5) using assms(4) by (rule cooldown_run)
  with assms(6) have blocked: "\<not> (t - last_open_time_em ?s \<ge> 10)" by simp
  have "state_of (process_and_update_traffic t rd s) = ?s"
  proof (cases "density_selected rd")
    case None
    then have "py_max snd (total_counts (road_counts_of rd)) = None"
      unfolding density_selected_def by simp
    with assms(7) show ?thesis
      unfolding process_and_update_traffic_def update_traffic_light_def by simp
  next
    case (Some m)
    have "\<not> (map_of (traffic_lights ?s) m = Some False \<and> t - entry_time ?s m \<ge> 10 \<and>
         t - last_open_time_em ?s \<ge> 10)" using blocked by simp
    then have "update_traffic_with_lock t ?s m False = Returned ?s"
      unfolding update_traffic_with_lock_density by (rule if_not_P)
    then show ?thesis unfolding tick_density [OF assms(7) Some] by simp
  qed
  with em show ?thesis by simp
qed

theorem post_emergency_cooldown_witness:
  "\<not> is_open ((init two_roads)\<lparr>road_data := Some ambulance_on_road1\<rparr>) ''Road1'' \<and>
   update_traffic_with_lock 1000 ((init two_roads)\<lparr>road_data := Some ambulance_on_road1\<rparr>)
     ''Road1'' True = Returned ambulance_served \<and>
   is_open ambulance_served ''Road1'' \<and>
   list_all (\<lambda>c. 1000 \<le> call_time c \<and> call_time c - 1000 < 10) [Sweep 1003] \<and>
   (1005::real) - 1000 < 10 \<and>
   \<not> has_emergency (road_counts_of road2_busy) \<and>
   last_open_time_em ambulance_served = 1000 \<and>
   state_of (process_and_update_traffic 1005 road2_busy (run ambulance_served [Sweep 1003])) =
     (run ambulance_served [Sweep 1003])\<lparr>road_data := Some road2_busy\<rparr>"
proof -
  have a: "\<not> is_open ((init two_roads)\<lparr>road_data := Some ambulance_on_road1\<rparr>) ''Road1''"
    by (simp add: example_defs eval_defs)
  have b: "update_traffic_with_lock 1000 ((init two_roads)\<lparr>road_data := Some ambulance_on_road1\<rparr>)
     ''Road1'' True = Returned ambulance_served"
    by (simp add: example_defs more_example_defs cooldown_example_defs eval_defs)
  have c: "is_open ambulance_served ''Road1''"
    by (simp add: cooldown_example_defs eval_defs)
  have d: "list_all (\<lambda>c. 1000 \<le> call_time c \<and> call_time c - 1000 < 10) [Sweep 1003]"
    by simp
  have f: "(1005::real) - 1000 < 10" by simp
  have g: "\<not> has_emergency (road_counts_of road2_busy)"
    by (simp add: example_defs eval_defs)
  show ?thesis
    using a b c d f g post_emergency_cooldown [OF a b c d refl f g] by simp
qed

text \<open>
  C9, as stated, fails for \<open>unlock_traffic\<close>: called on the initial state it opens Road1,
  which has no entry in \<open>last_open_data\<close>.
\<close>

theorem bookkeeping_invariant_counterexample:
  "bookkeeping_inv (init two_roads) \<and>
   is_open (state_of (unlock_traffic (init two_roads) ''Road1'')) ''Road1'' \<and>
   \<not> bookkept (state_of (unlock_traffic (init two_roads) ''Road1'')) ''Road1'' \<and>
   \<not> bookkeeping_inv (state_of (unlock_traffic (init two_roads) ''Road1''))"
  by (simp add: example_defs eval_defs operation_defs)

text \<open>
  C9, amended: from the initial state, every run of ticks, sweeps, \<open>lock_traffic\<close> calls
  and \<open>unlock_traffic\<close> calls for bookkept roads keeps the invariant that every open road
  has an entry in \<open>last_open_data\<close> and every entry names its own key. Consequently the
  locking loop, when it runs to its end, leaves no road other than the target open; and
  it does run to its end when every bookkept road is a key of \<open>traffic_lights\<close>.
\<close>

theorem bookkeeping_invariant:
  assumes "admissible (init roads) ops" and "s = run_ops (init roads) ops"
  shows "bookkeeping_inv s \<and>
         (\<forall>target s1. lock_others target (map fst (last_open_data s)) s = Returned s1 \<longrightarrow>
            (\<forall>x. x \<noteq> target \<longrightarrow> \<not> is_open s1 x)) \<and>
         (configured s \<longrightarrow>
            (\<forall>target. \<exists>s1. lock_others target (map fst (last_open_data s)) s = Returned s1))"
proof -
  have inv: "bookkeeping_inv s"
    unfolding assms(2) by (rule bookkeeping_inv_run_ops [OF bookkeeping_inv_init assms(1)])
  have "\<forall>target s1. lock_others target (map fst (last_open_data s)) s = Returned s1 \<longrightarrow>
            (\<forall>x. x \<noteq> target \<longrightarrow> \<not> is_open s1 x)"
    using lock_others_all_closed [OF inv] by blast
  moreover have "configured s \<longrightarrow>
            (\<forall>target. \<exists>s1. lock_others target (map fst (last_open_data s)) s = Returned s1)"
    using lock_others_configured by blast
  ultimately show ?thesis using inv by blast
qed

theorem bookkeeping_invariant_witness:
  "admissible (init two_roads) [Arbitrate (Tick 1000 road1_busy), Lock ''Road1'', Unlock ''Road1''] \<and>
   run_ops (init two_roads) [Arbitrate (Tick 1000 road1_busy), Lock ''Road1'', Unlock ''Road1'']
     = road1_opened \<and>
   bookkeeping_inv road1_opened \<and> configured road1_opened \<and>
   lock_others ''Road2'' (map fst (last_open_data road1_opened)) road1_opened =
     Returned (road1_opened\<lparr>traffic_lights := [(''Road1'', False), (''Road2'', False)]\<rparr>) \<and>
   \<not> is_open (road1_opened\<lparr>traffic_lights := [(''Road1'', False), (''Road2'', False)]\<rparr>) ''Road1''"
proof -
  have a: "admissible (init two_roads)
             [Arbitrate (Tick 1000 road1_busy), Lock ''Road1'', Unlock ''Road1'']"
    by (simp add: example_defs eval_defs)
  have b: "road1_opened = run_ops (init two_roads)
             [Arbitrate (Tick 1000 road1_busy), Lock ''Road1'', Unlock ''Road1'']"
    by (simp add: example_defs eval_defs)
  have c: "configured road1_opened" by (auto simp: example_defs operation_defs)
  have d: "lock_others ''Road2'' (map fst (last_open_data road1_opened)) road1_opened =
     Returned (road1_opened\<lparr>traffic_lights := [(''Road1'', False), (''Road2'', False)]\<rparr>)"
    by (simp add: example_defs eval_defs)
  from bookkeeping_invariant [OF a b] d
  have "bookkeeping_inv road1_opened" and
    "\<forall>x. x \<noteq> ''Road2'' \<longrightarrow>
      \<not> is_open (road1_opened\<lparr>traffic_lights := [(''Road1'', False), (''Road2'', False)]\<rparr>) x"
    by blast+
  then have "bookkeeping_inv road1_opened" and
    "\<not> is_open (road1_opened\<lparr>traffic_lights := [(''Road1'', False), (''Road2'', False)]\<rparr>) ''Road1''"
    by simp_all
  with a b c d show ?thesis by simp
qed

text \<open>
  C10. A tick on the empty snapshot dict does not complete: no road carries an emergency
  vehicle, so the density branch takes \<open>max\<close> of no demand score, which raises
  \<open>ValueError\<close>; the exception leaves \<open>process_and_update_traffic\<close> with only the
  snapshot cache written. When the cache is \<open>None\<close>, \<open>update_traffic_light\<close> returns at
  once and changes nothing. In all, \<open>update_traffic_light\<close> returns exactly when the
  cache is not the empty dict.
\<close>

theorem tick_on_empty_snapshot_raises:
  "process_and_update_traffic now [] s = Raised ValueError (s\<lparr>road_data := Some []\<rparr>) \<and>
   update_traffic_light now (s\<lparr>road_data := Some []\<rparr>) =
     Raised ValueError (s\<lparr>road_data := Some []\<rparr>) \<and>
   update_traffic_light now (s\<lparr>road_data := None\<rparr>) = Returned (s\<lparr>road_data := None\<rparr>) \<and>
   (\<exists>s'. update_traffic_light now s = Returned s') = (road_data s \<noteq> Some [])"
proof -
  have "process_and_update_traffic now [] s = Raised ValueError (s\<lparr>road_data := Some []\<rparr>) \<and>
   update_traffic_light now (s\<lparr>road_data := Some []\<rparr>) =
     Raised ValueError (s\<lparr>road_data := Some []\<rparr>) \<and>
   update_traffic_light now (s\<lparr>road_data := None\<rparr>) = Returned (s\<lparr>road_data := None\<rparr>)"
    by (simp add: process_and_update_traffic_def update_traffic_light_def road_counts_of_def
      has_emergency_def total_counts_def py_max_def)
  with update_traffic_light_returns [of now s] show ?thesis by simp
qed

end
